theory Spec2Isabelle
  imports Main "HOL-Library.Word"
begin

section \<open>Sparse rows, row blocks and the row block container of dmlc-core\<close>

text \<open>
  The development follows \<^verbatim>\<open>include/dmlc/data.h\<close> (the views \<^verbatim>\<open>Row\<close> and
  \<^verbatim>\<open>RowBlock\<close>), \<^verbatim>\<open>src/data/row_block.h\<close> (\<^verbatim>\<open>RowBlockContainer\<close>) and
  \<^verbatim>\<open>src/data/basic_row_iter.h\<close> (\<^verbatim>\<open>BasicRowIter\<close>).

  Conventions of the embedding.
  \<^item> A feature index type (\<^verbatim>\<open>IndexType\<close>, \<^verbatim>\<open>I\<close>) is an unsigned machine integer
    \<open>'a word\<close>, as \<^verbatim>\<open>index_t = unsigned\<close> and \<^verbatim>\<open>size_t\<close> are. A comparison between two
    unsigned types of different width is done by C++ in the wider one, so it compares
    the values \<open>unat\<close>.
  \<^item> \<^verbatim>\<open>real_t\<close> is a type parameter \<open>'r\<close>: the container only copies labels and values.
  \<^item> \<^verbatim>\<open>size_t\<close> positions, sizes and offsets are natural numbers: they count elements
    of arrays held in memory.
  \<^item> A pointer into an array is the list of the elements from the pointer onwards;
    \<^verbatim>\<open>p + k\<close> is \<open>drop k p\<close> and \<^verbatim>\<open>NULL\<close> is \<open>None\<close>.
  \<^item> A failed \<^verbatim>\<open>CHECK\<close> is an error value, named as the specification names the
    condition. A mutating method returns \<open>Ok s\<close> with the new state or \<open>Fail e s\<close>
    with the state the object is in when the \<^verbatim>\<open>CHECK\<close> fails.
\<close>

text \<open>Modelled from the spec: the macro \<^verbatim>\<open>CHECK\<close> (\<^verbatim>\<open>dmlc/logging.h\<close>) is not among the
  sources. Section 7 of the specification names the conditions that a failed check
  raises: \<open>IndexOverflow\<close> for a feature id beyond the index type, \<open>OutOfRange\<close> for an
  accessor called out of bounds, \<open>CorruptData\<close> for a stream that ends early, and an
  unrecoverable failure of the consistency checks of \<^verbatim>\<open>GetBlock\<close>
  (\<open>InvariantViolation\<close>). \<open>UndefinedBehaviour\<close> is not raised by any check: it marks
  a read or a store outside the storage of a vector, where C++ defines no outcome.\<close>

datatype error =
    IndexOverflow
  | OutOfRange
  | CorruptData
  | InvariantViolation
  | UndefinedBehaviour

datatype 's result = Ok 's | Fail error 's

subsection \<open>\<^verbatim>\<open>Row\<close> and \<^verbatim>\<open>RowBlock\<close> (data.h)\<close>

record ('i, 'r) Row =
  row_label :: 'r
  row_length :: nat
  row_index :: "'i list"
  row_value :: "'r list option"

record ('i, 'r) RowBlock =
  blk_size :: nat
  blk_offset :: "nat list"
  blk_label :: "'r list"
  blk_index :: "'i list"
  blk_value :: "'r list option"

text \<open>What a caller owes when handing over a view: the arrays behind the pointers are
  at least as long as the view says (section 3 of the specification).\<close>

definition wf_row :: "('i, 'r) Row \<Rightarrow> bool" where
  "wf_row row \<longleftrightarrow>
     row_length row \<le> length (row_index row) \<and>
     (case row_value row of None \<Rightarrow> True | Some vs \<Rightarrow> row_length row \<le> length vs)"

definition wf_block :: "('i, 'r) RowBlock \<Rightarrow> bool" where
  "wf_block b \<longleftrightarrow>
     length (blk_offset b) = blk_size b + 1 \<and>
     blk_offset b ! 0 = 0 \<and>
     sorted (blk_offset b) \<and>
     blk_size b \<le> length (blk_label b) \<and>
     blk_offset b ! blk_size b \<le> length (blk_index b) \<and>
     (case blk_value b of None \<Rightarrow> True | Some vs \<Rightarrow> blk_offset b ! blk_size b \<le> length vs)"

text \<open>\<^verbatim>\<open>Row::get_index\<close> and \<^verbatim>\<open>Row::get_value\<close>.\<close>

definition get_index :: "('i, 'r) Row \<Rightarrow> nat \<Rightarrow> 'i" where
  "get_index row i = row_index row ! i"

definition get_value :: "('i, 'r::one) Row \<Rightarrow> nat \<Rightarrow> 'r" where
  "get_value row i = (case row_value row of None \<Rightarrow> 1 | Some vs \<Rightarrow> vs ! i)"

text \<open>\<^verbatim>\<open>Row::SDot\<close>. The two loops accumulate into the local \<^verbatim>\<open>sum\<close> (\<open>acc\<close> below); each
  \<^verbatim>\<open>CHECK(index[i] < size)\<close> that fails ends the call. \<open>SDot_sum\<close> is the value of the
  local variable after the loops. The body of \<^verbatim>\<open>SDot\<close> ends there: it has no
  \<^verbatim>\<open>return\<close> statement, so the call hands no value back, which is \<open>Inr None\<close>.\<close>

fun SDot_ones :: "'v list \<Rightarrow> nat \<Rightarrow> 'a::len word list \<Rightarrow> 'v::semiring_0 \<Rightarrow> error + 'v" where
  "SDot_ones weight sz [] acc = Inr acc"
| "SDot_ones weight sz (x # xs) acc =
     (if unat x < sz then SDot_ones weight sz xs (acc + weight ! unat x)
      else Inl OutOfRange)"

fun SDot_vals :: "'v list \<Rightarrow> nat \<Rightarrow> ('a::len word \<times> 'v) list \<Rightarrow> 'v::semiring_0 \<Rightarrow> error + 'v" where
  "SDot_vals weight sz [] acc = Inr acc"
| "SDot_vals weight sz ((x, v) # xs) acc =
     (if unat x < sz then SDot_vals weight sz xs (acc + weight ! unat x * v)
      else Inl OutOfRange)"

definition SDot_sum :: "('a::len word, 'v::semiring_0) Row \<Rightarrow> 'v list \<Rightarrow> nat \<Rightarrow> error + 'v" where
  "SDot_sum row weight sz =
     (case row_value row of
        None \<Rightarrow> SDot_ones weight sz (take (row_length row) (row_index row)) 0
      | Some vs \<Rightarrow>
          SDot_vals weight sz
            (zip (take (row_length row) (row_index row)) (take (row_length row) vs)) 0)"

definition SDot :: "('a::len word, 'v::semiring_0) Row \<Rightarrow> 'v list \<Rightarrow> nat \<Rightarrow> error + 'v option" where
  "SDot row weight sz =
     (case SDot_sum row weight sz of Inl e \<Rightarrow> Inl e | Inr acc \<Rightarrow> Inr None)"

text \<open>\<^verbatim>\<open>RowBlock::operator[]\<close>.\<close>

definition RowBlock_at :: "('i, 'r) RowBlock \<Rightarrow> nat \<Rightarrow> error + ('i, 'r) Row" where
  "RowBlock_at b rowid =
     (if rowid < blk_size b then
        Inr \<lparr> row_label = blk_label b ! rowid,
              row_length = blk_offset b ! (rowid + 1) - blk_offset b ! rowid,
              row_index = drop (blk_offset b ! rowid) (blk_index b),
              row_value = (case blk_value b of
                             None \<Rightarrow> None
                           | Some vs \<Rightarrow> Some (drop (blk_offset b ! rowid) vs)) \<rparr>
      else Inl OutOfRange)"

subsection \<open>\<^verbatim>\<open>RowBlockContainer\<close> (row_block.h)\<close>

record ('i, 'r) RowBlockContainer =
  offset :: "nat list"
  label :: "'r list"
  index :: "'i list"
  "value" :: "'r list"
  max_index :: 'i

text \<open>\<^verbatim>\<open>std::vector::resize\<close> keeps the first \<open>n\<close> elements and fills up with
  value-initialised elements, which are zero for the integer and floating types used here.\<close>

definition resize :: "'x::zero list \<Rightarrow> nat \<Rightarrow> 'x list" where
  "resize xs n = take n xs @ replicate (n - length xs) 0"

text \<open>A run of stores \<^verbatim>\<open>p[pos + i] = src[i]\<close> into the storage of a vector, as
  \<^verbatim>\<open>memcpy\<close> to \<^verbatim>\<open>BeginPtr(v) + pos\<close> and the loops over \<^verbatim>\<open>ihead\<close> and \<^verbatim>\<open>ohead\<close> do.
  \<^verbatim>\<open>BeginPtr\<close> (\<^verbatim>\<open>dmlc/base.h\<close>, not among the sources) is taken to give the address
  of the first element. Storing nothing changes nothing. A store beyond the last element
  of the vector is undefined behaviour in C++: the model has no result there (\<open>None\<close>).\<close>

definition store_at :: "'x list \<Rightarrow> nat \<Rightarrow> 'x list \<Rightarrow> 'x list option" where
  "store_at dst pos src =
     (if src = [] then Some dst
      else if pos + length src \<le> length dst
        then Some (take pos dst @ src @ drop (pos + length src) dst)
      else None)"

definition Clear :: "('a::len word, 'r) RowBlockContainer \<Rightarrow> ('a word, 'r) RowBlockContainer" where
  "Clear c = c\<lparr> offset := [0], label := [], index := [], value := [], max_index := 0 \<rparr>"

text \<open>\<^verbatim>\<open>Size\<close>: \<^verbatim>\<open>offset.size() - 1\<close> in \<^verbatim>\<open>size_t\<close>, which wraps when the vector is empty.\<close>

definition Size :: "('i, 'r) RowBlockContainer \<Rightarrow> nat" where
  "Size c = (length (offset c) + 2 ^ 64 - 1) mod 2 ^ 64"

text \<open>\<^verbatim>\<open>Push(Row<I> row)\<close>. The first loop, over the \<^verbatim>\<open>row.length\<close> feature ids of the
  row: \<^verbatim>\<open>std::numeric_limits<IndexType>::max()\<close> is the word \<open>- 1\<close> of all ones, and
  \<^verbatim>\<open>static_cast<IndexType>\<close> is \<open>ucast\<close>.\<close>

fun Push_row_indices ::
  "'b::len word list \<Rightarrow> ('a::len word, 'r) RowBlockContainer \<Rightarrow> ('a word, 'r) RowBlockContainer result" where
  "Push_row_indices [] c = Ok c"
| "Push_row_indices (x # xs) c =
     (if unat x < unat (- 1 :: 'a word) then
        Push_row_indices xs
          (c\<lparr> index := index c @ [ucast x], max_index := max (max_index c) (ucast x) \<rparr>)
      else Fail IndexOverflow c)"

definition Push_row ::
  "('b::len word, 'r) Row \<Rightarrow> ('a::len word, 'r) RowBlockContainer \<Rightarrow> ('a word, 'r) RowBlockContainer result" where
  "Push_row row c =
     (case Push_row_indices (take (row_length row) (row_index row))
             (c\<lparr> label := label c @ [row_label row] \<rparr>) of
        Fail e c1 \<Rightarrow> Fail e c1
      | Ok c1 \<Rightarrow>
          let c2 = (case row_value row of
                      None \<Rightarrow> c1
                    | Some vs \<Rightarrow> c1\<lparr> value := value c1 @ take (row_length row) vs \<rparr>)
          in Ok (c2\<lparr> offset := offset c2 @ [length (index c2)] \<rparr>))"

text \<open>\<^verbatim>\<open>Push(RowBlock<I> batch)\<close>. The loop over \<^verbatim>\<open>ihead\<close>: \<open>p\<close> is the position
  \<^verbatim>\<open>offset.back() + i\<close> in the resized index vector.\<close>

fun Push_block_indices ::
  "'b::len word list \<Rightarrow> nat \<Rightarrow> ('a::len word, 'r) RowBlockContainer \<Rightarrow> ('a word, 'r) RowBlockContainer result" where
  "Push_block_indices [] p c = Ok c"
| "Push_block_indices (x # xs) p c =
     (if unat x < unat (- 1 :: 'a word) then
        (if p < length (index c) then
           Push_block_indices xs (Suc p)
             (c\<lparr> index := (index c)[p := ucast x], max_index := max (max_index c) (ucast x) \<rparr>)
         else Fail UndefinedBehaviour c)
      else Fail IndexOverflow c)"

text \<open>The third part of the bulk push: \<^verbatim>\<open>value\<close> grows by \<^verbatim>\<open>ndata\<close> and the values of
  the batch are copied to \<^verbatim>\<open>BeginPtr(value) + size\<close>, where \<^verbatim>\<open>size\<close> is the number of
  labels the container had.\<close>

definition Push_block_values ::
  "('b, 'r::zero) RowBlock \<Rightarrow> nat \<Rightarrow> nat \<Rightarrow> ('i, 'r) RowBlockContainer \<Rightarrow> ('i, 'r) RowBlockContainer result" where
  "Push_block_values batch sz ndata c =
     (case blk_value batch of
        None \<Rightarrow> Ok c
      | Some vs \<Rightarrow>
          let c1 = c\<lparr> value := resize (value c) (length (value c) + ndata) \<rparr>
          in (case store_at (value c1) sz (take ndata vs) of
                None \<Rightarrow> Fail UndefinedBehaviour c1
              | Some v \<Rightarrow> Ok (c1\<lparr> value := v \<rparr>)))"

text \<open>The last part: \<^verbatim>\<open>shift = offset[size]\<close>, then the loop over \<^verbatim>\<open>ohead\<close>.\<close>

definition Push_block_offsets ::
  "('b, 'r) RowBlock \<Rightarrow> nat \<Rightarrow> ('i, 'r) RowBlockContainer \<Rightarrow> ('i, 'r) RowBlockContainer result" where
  "Push_block_offsets batch sz c =
     (if sz < length (offset c) then
        let shift = offset c ! sz;
            c1 = c\<lparr> offset := resize (offset c) (length (offset c) + blk_size batch) \<rparr>
        in (case store_at (offset c1) (sz + 1)
                   (map (\<lambda>i. shift + blk_offset batch ! (i + 1)) [0 ..< blk_size batch]) of
              None \<Rightarrow> Fail UndefinedBehaviour c1
            | Some os \<Rightarrow> Ok (c1\<lparr> offset := os \<rparr>))
      else Fail UndefinedBehaviour c)"

definition Push_block ::
  "('b::len word, 'r::zero) RowBlock \<Rightarrow> ('a::len word, 'r) RowBlockContainer \<Rightarrow> ('a word, 'r) RowBlockContainer result" where
  "Push_block batch c =
     (let sz = length (label c);
          c1 = c\<lparr> label := resize (label c) (length (label c) + blk_size batch) \<rparr>
      in case store_at (label c1) sz (take (blk_size batch) (blk_label batch)) of
           None \<Rightarrow> Fail UndefinedBehaviour c1
         | Some l \<Rightarrow>
             let c2 = c1\<lparr> label := l \<rparr>;
                 ndata = blk_offset batch ! blk_size batch;
                 c3 = c2\<lparr> index := resize (index c2) (length (index c2) + ndata) \<rparr>
             in if offset c3 = [] then Fail UndefinedBehaviour c3
                else (case Push_block_indices (take ndata (blk_index batch)) (last (offset c3)) c3 of
                        Fail e c4 \<Rightarrow> Fail e c4
                      | Ok c4 \<Rightarrow>
                          (case Push_block_values batch sz ndata c4 of
                             Fail e c5 \<Rightarrow> Fail e c5
                           | Ok c5 \<Rightarrow> Push_block_offsets batch sz c5)))"

text \<open>\<^verbatim>\<open>GetBlock\<close>: the three consistency checks, then the view.\<close>

definition GetBlock :: "('i, 'r) RowBlockContainer \<Rightarrow> error + ('i, 'r) RowBlock" where
  "GetBlock c =
     (if length (label c) + 1 \<noteq> length (offset c) then Inl InvariantViolation
      else if last (offset c) \<noteq> length (index c) then Inl InvariantViolation
      else if \<not> (last (offset c) = length (value c) \<or> length (value c) = 0)
        then Inl InvariantViolation
      else Inr \<lparr> blk_size = length (offset c) - 1,
                 blk_offset = offset c,
                 blk_label = label c,
                 blk_index = index c,
                 blk_value = (if length (value c) = 0 then None else Some (value c)) \<rparr>)"

subsection \<open>Binary streams\<close>

type_synonym byte = "8 word"

text \<open>Modelled from the spec: \<^verbatim>\<open>dmlc::Stream\<close> (\<^verbatim>\<open>dmlc/io.h\<close>) is not among the
  sources. Section 6 of the specification gives the format: a stream is a sequence of
  bytes; a vector is written as an unsigned 64-bit count followed by its elements, each
  at the width of its type; reading a vector fails when the count or the elements
  cannot be fully read. Integers are laid out least significant byte first.\<close>

fun le_bytes :: "nat \<Rightarrow> nat \<Rightarrow> byte list" where
  "le_bytes 0 v = []"
| "le_bytes (Suc k) v = of_nat (v mod 256) # le_bytes k (v div 256)"

text \<open>Modelled from the spec: the value of a little-endian byte sequence, the inverse of
  \<open>le_bytes\<close>, for the missing \<^verbatim>\<open>dmlc::Stream\<close>.\<close>

fun le_value :: "byte list \<Rightarrow> nat" where
  "le_value [] = 0"
| "le_value (b # bs) = unat b + 256 * le_value bs"

text \<open>Modelled from the spec: \<^verbatim>\<open>Stream::Write(const std::vector<T>&)\<close> for an element
  type of \<open>w\<close> bytes whose bit pattern is read by \<open>enc\<close>: the 64-bit count, then the
  elements, appended to the stream.\<close>

definition Write_vec :: "nat \<Rightarrow> ('x \<Rightarrow> nat) \<Rightarrow> 'x list \<Rightarrow> byte list \<Rightarrow> byte list" where
  "Write_vec w enc xs fo = fo @ le_bytes 8 (length xs) @ concat (map (\<lambda>x. le_bytes w (enc x)) xs)"

text \<open>Modelled from the spec: \<^verbatim>\<open>Stream::Read(std::vector<T>*)\<close>: the vector read and
  the rest of the stream, or \<open>None\<close> when the stream is too short.\<close>

definition Read_vec :: "nat \<Rightarrow> (nat \<Rightarrow> 'x) \<Rightarrow> byte list \<Rightarrow> ('x list \<times> byte list) option" where
  "Read_vec w dec fi =
     (if length fi < 8 then None
      else let n = le_value (take 8 fi); rest = drop 8 fi
           in if length rest < n * w then None
              else Some (map (\<lambda>k. dec (le_value (take w (drop (k * w) rest)))) [0 ..< n],
                         drop (n * w) rest))"

text \<open>\<^verbatim>\<open>RowBlockContainer::Save\<close> and \<^verbatim>\<open>RowBlockContainer::Load\<close>. \<^verbatim>\<open>real_t\<close> is
  \<^verbatim>\<open>float\<close>, four bytes, here the 32-bit pattern of the number; \<^verbatim>\<open>size_t\<close> is eight
  bytes; \<^verbatim>\<open>IndexType\<close> is \<open>'a word\<close>, of \<open>LENGTH('a) div 8\<close> bytes. \<^verbatim>\<open>Load\<close> returns the
  container together with the rest of the stream.\<close>

definition Save :: "('a::len word, 32 word) RowBlockContainer \<Rightarrow> byte list \<Rightarrow> byte list" where
  "Save c fo =
     (let fo1 = Write_vec 8 id (offset c) fo;
          fo2 = Write_vec 4 unat (label c) fo1;
          fo3 = Write_vec (LENGTH('a) div 8) unat (index c) fo2
      in Write_vec 4 unat (value c) fo3)"

definition Load ::
  "byte list \<Rightarrow> ('a::len word, 32 word) RowBlockContainer
     \<Rightarrow> (('a word, 32 word) RowBlockContainer \<times> byte list) result" where
  "Load fi c =
     (case Read_vec 8 id fi of
        None \<Rightarrow> Fail CorruptData (c, fi)
      | Some (os, fi1) \<Rightarrow>
          let c1 = c\<lparr> offset := os \<rparr>
          in (case Read_vec 4 of_nat fi1 of
                None \<Rightarrow> Fail CorruptData (c1, fi1)
              | Some (ls, fi2) \<Rightarrow>
                  let c2 = c1\<lparr> label := ls \<rparr>
                  in (case Read_vec 4 of_nat fi2 of
                        None \<Rightarrow> Fail CorruptData (c2, fi2)
                      | Some (vs, fi3) \<Rightarrow>
                          let c3 = c2\<lparr> value := vs \<rparr>
                          in (case Read_vec (LENGTH('a) div 8) of_nat fi3 of
                                None \<Rightarrow> Fail CorruptData (c3, fi3)
                              | Some (is, fi4) \<Rightarrow> Ok (c3\<lparr> index := is \<rparr>, fi4)))))"

subsection \<open>\<^verbatim>\<open>BasicRowIter\<close> (basic_row_iter.h)\<close>

text \<open>The members \<^verbatim>\<open>at_head_\<close>, \<^verbatim>\<open>row_\<close> and \<^verbatim>\<open>data_\<close> (a field name of a record
  cannot end with an underscore, hence the prefix); the member \<^verbatim>\<open>num_col\<close> is never
  written nor read. The parser handed to the constructor is the list of the blocks that
  its successive \<^verbatim>\<open>Next()\<close>/\<^verbatim>\<open>Value()\<close> deliver, of index type \<^verbatim>\<open>size_t\<close>.\<close>

record ('i, 'r) BasicRowIter =
  m_at_head :: bool
  m_row :: "('i, 'r) RowBlock"
  m_data :: "('i, 'r) RowBlockContainer"

fun Init_loop ::
  "(64 word, 'r::zero) RowBlock list \<Rightarrow> ('a::len word, 'r) RowBlockContainer
     \<Rightarrow> ('a word, 'r) RowBlockContainer result" where
  "Init_loop [] d = Ok d"
| "Init_loop (b # bs) d =
     (case Push_block b d of Fail e d1 \<Rightarrow> Fail e d1 | Ok d1 \<Rightarrow> Init_loop bs d1)"

definition Init ::
  "(64 word, 'r::zero) RowBlock list \<Rightarrow> ('a::len word, 'r) BasicRowIter
     \<Rightarrow> error + ('a word, 'r) BasicRowIter" where
  "Init parser it =
     (case Init_loop parser (Clear (m_data it)) of
        Fail e d \<Rightarrow> Inl e
      | Ok d \<Rightarrow>
          (case GetBlock d of
             Inl e \<Rightarrow> Inl e
           | Inr b \<Rightarrow> Inr (it\<lparr> m_data := d, m_row := b \<rparr>)))"

text \<open>The constructor: \<^verbatim>\<open>at_head_(true)\<close>, then \<^verbatim>\<open>Init\<close>. Before \<^verbatim>\<open>Init\<close> runs, the
  vectors of \<^verbatim>\<open>data_\<close> are empty; \<^verbatim>\<open>max_index\<close> and \<^verbatim>\<open>row_\<close> are not initialised and
  \<^verbatim>\<open>Init\<close> overwrites both before anything reads them, so any value serves.\<close>

definition new_BasicRowIter ::
  "(64 word, 'r::zero) RowBlock list \<Rightarrow> error + ('a::len word, 'r) BasicRowIter" where
  "new_BasicRowIter parser =
     Init parser
       \<lparr> m_at_head = True,
         m_row = \<lparr> blk_size = 0, blk_offset = [], blk_label = [], blk_index = [], blk_value = None \<rparr>,
         m_data = \<lparr> offset = [], label = [], index = [], value = [], max_index = 0 \<rparr> \<rparr>"

definition BeforeFirst :: "('i, 'r) BasicRowIter \<Rightarrow> ('i, 'r) BasicRowIter" where
  "BeforeFirst it = it\<lparr> m_at_head := True \<rparr>"

definition Next :: "('i, 'r) BasicRowIter \<Rightarrow> bool \<times> ('i, 'r) BasicRowIter" where
  "Next it = (if m_at_head it then (True, it\<lparr> m_at_head := False \<rparr>) else (False, it))"

definition Value :: "('i, 'r) BasicRowIter \<Rightarrow> ('i, 'r) RowBlock" where
  "Value it = m_row it"

text \<open>\<^verbatim>\<open>NumCol\<close>: \<^verbatim>\<open>static_cast<size_t>(data_.max_index) + 1\<close>, in 64-bit arithmetic.\<close>

definition NumCol :: "('a::len word, 'r) BasicRowIter \<Rightarrow> nat" where
  "NumCol it = (unat (max_index (m_data it)) mod 2 ^ 64 + 1) mod 2 ^ 64"

text \<open>The state of the iterator after \<open>n\<close> further calls of \<^verbatim>\<open>Next\<close>.\<close>

fun Next_times :: "nat \<Rightarrow> ('i, 'r) BasicRowIter \<Rightarrow> ('i, 'r) BasicRowIter" where
  "Next_times 0 it = it"
| "Next_times (Suc n) it = Next_times n (snd (Next it))"

subsection \<open>Sequences of public operations\<close>

text \<open>A client of the container calls \<^verbatim>\<open>Clear\<close> and the two \<^verbatim>\<open>Push\<close> methods in some
  order; \<open>run\<close> performs such a sequence and stops at the first call that fails.\<close>

datatype ('i, 'r) operation =
    OpClear
  | OpPushRow "('i, 'r) Row"
  | OpPushBlock "('i, 'r) RowBlock"

fun perform ::
  "('b::len word, 'r::zero) operation \<Rightarrow> ('a::len word, 'r) RowBlockContainer
     \<Rightarrow> ('a word, 'r) RowBlockContainer result" where
  "perform OpClear c = Ok (Clear c)"
| "perform (OpPushRow row) c = Push_row row c"
| "perform (OpPushBlock batch) c = Push_block batch c"

fun run ::
  "('b::len word, 'r::zero) operation list \<Rightarrow> ('a::len word, 'r) RowBlockContainer
     \<Rightarrow> ('a word, 'r) RowBlockContainer result" where
  "run [] c = Ok c"
| "run (x # xs) c = (case perform x c of Fail e c1 \<Rightarrow> Fail e c1 | Ok c1 \<Rightarrow> run xs c1)"

text \<open>The operands a caller may hand over, and whether an operand carries a value array.\<close>

fun wf_operation :: "('i, 'r) operation \<Rightarrow> bool" where
  "wf_operation OpClear = True"
| "wf_operation (OpPushRow row) = wf_row row"
| "wf_operation (OpPushBlock batch) = wf_block batch"

fun has_values :: "('i, 'r) operation \<Rightarrow> bool option" where
  "has_values OpClear = None"
| "has_values (OpPushRow row) = Some (row_value row \<noteq> None)"
| "has_values (OpPushBlock batch) = Some (blk_value batch \<noteq> None)"

text \<open>The feature ids that an operation hands to the container: a row its first
  \<^verbatim>\<open>length\<close> ids, a block its first \<^verbatim>\<open>offset[size]\<close> ids. \<open>accepted_ids\<close> lists, in
  order, the ids handed over by a sequence of operations since its last \<^verbatim>\<open>Clear\<close>.\<close>

fun operand_ids :: "('i, 'r) operation \<Rightarrow> 'i list" where
  "operand_ids OpClear = []"
| "operand_ids (OpPushRow row) = take (row_length row) (row_index row)"
| "operand_ids (OpPushBlock batch) = take (blk_offset batch ! blk_size batch) (blk_index batch)"

fun accepted_ids_from :: "'i list \<Rightarrow> ('i, 'r) operation list \<Rightarrow> 'i list" where
  "accepted_ids_from acc [] = acc"
| "accepted_ids_from acc (OpClear # xs) = accepted_ids_from [] xs"
| "accepted_ids_from acc (OpPushRow row # xs) =
     accepted_ids_from (acc @ operand_ids (OpPushRow row)) xs"
| "accepted_ids_from acc (OpPushBlock batch # xs) =
     accepted_ids_from (acc @ operand_ids (OpPushBlock batch)) xs"

definition accepted_ids :: "('i, 'r) operation list \<Rightarrow> 'i list" where
  "accepted_ids xs = accepted_ids_from [] xs"

text \<open>The empty container: the state \<^verbatim>\<open>Clear\<close> leaves.\<close>

definition empty_container :: "('a::len word, 'r) RowBlockContainer" where
  "empty_container = \<lparr> offset = [0], label = [], index = [], value = [], max_index = 0 \<rparr>"

text \<open>The rows of a list laid out as one block in compressed form: the labels, the
  running sums of the lengths, the feature ids and, when \<open>with_values\<close>, the values.\<close>

fun row_offsets :: "nat \<Rightarrow> ('i, 'r) Row list \<Rightarrow> nat list" where
  "row_offsets base [] = []"
| "row_offsets base (r # rs) = (base + row_length r) # row_offsets (base + row_length r) rs"

definition block_of_rows :: "bool \<Rightarrow> ('i, 'r) Row list \<Rightarrow> ('i, 'r) RowBlock" where
  "block_of_rows with_values rows =
     \<lparr> blk_size = length rows,
       blk_offset = 0 # row_offsets 0 rows,
       blk_label = map row_label rows,
       blk_index = concat (map (\<lambda>r. take (row_length r) (row_index r)) rows),
       blk_value = (if with_values
                    then Some (concat (map (\<lambda>r. case row_value r of None \<Rightarrow> []
                                                 | Some vs \<Rightarrow> take (row_length r) vs) rows))
                    else None) \<rparr>"

fun Push_rows ::
  "('b::len word, 'r) Row list \<Rightarrow> ('a::len word, 'r) RowBlockContainer
     \<Rightarrow> ('a word, 'r) RowBlockContainer result" where
  "Push_rows [] c = Ok c"
| "Push_rows (r # rs) c = (case Push_row r c of Fail e c1 \<Rightarrow> Fail e c1 | Ok c1 \<Rightarrow> Push_rows rs c1)"

subsection \<open>Example data\<close>

text \<open>The block of the end-to-end example of the specification (two rows, labels 1 and
  -1, features 1 and 3, then 2), as a parser delivers it with \<^verbatim>\<open>size_t\<close> indices, and
  the iterator over 32-bit indices built from it. Labels and values are integers here.\<close>

definition parsed_block :: "(64 word, int) RowBlock" where
  "parsed_block =
     \<lparr> blk_size = 2, blk_offset = [0, 2, 3], blk_label = [1, -1],
       blk_index = [1, 3, 2], blk_value = Some [5, 20, 10] \<rparr>"

definition drained_iter :: "(32 word, int) BasicRowIter" where
  "drained_iter =
     \<lparr> m_at_head = True,
       m_row = \<lparr> blk_size = 2, blk_offset = [0, 2, 3], blk_label = [1, -1],
                 blk_index = [1, 3, 2], blk_value = Some [5, 20, 10] \<rparr>,
       m_data = \<lparr> offset = [0, 2, 3], label = [1, -1], index = [1, 3, 2],
                  value = [5, 20, 10], max_index = 3 \<rparr> \<rparr>"

text \<open>A sequence of pushes whose operands all carry values, and a sequence whose operands
  carry none; the second row of the latter views the first two elements of a longer array.\<close>

definition valued_operations :: "(64 word, int) operation list" where
  "valued_operations =
     [OpPushBlock parsed_block,
      OpPushRow \<lparr> row_label = 1, row_length = 2, row_index = [7, 4],
                  row_value = Some [30, 40] \<rparr>]"

definition plain_operations :: "(64 word, int) operation list" where
  "plain_operations =
     [OpPushRow \<lparr> row_label = 1, row_length = 1, row_index = [9], row_value = None \<rparr>,
      OpClear,
      OpPushRow \<lparr> row_label = - 1, row_length = 2, row_index = [2, 6, 8], row_value = None \<rparr>]"

subsection \<open>Coherence of a container\<close>

text \<open>The consistency that \<^verbatim>\<open>GetBlock\<close> checks, without the condition on \<^verbatim>\<open>value\<close>,
  together with what the pushes establish about \<^verbatim>\<open>offset\<close>, about the stored feature
  ids (each below the largest value of \<^verbatim>\<open>IndexType\<close>) and about \<^verbatim>\<open>max_index\<close>.\<close>

definition coherent :: "('a::len word, 'r) RowBlockContainer \<Rightarrow> bool" where
  "coherent c \<longleftrightarrow>
     length (label c) + 1 = length (offset c) \<and>
     last (offset c) = length (index c) \<and>
     sorted (offset c) \<and>
     hd (offset c) = 0 \<and>
     list_all (\<lambda>i. i \<noteq> - 1) (index c) \<and>
     max_index c = foldl max 0 (index c)"

section \<open>Properties\<close>

subsection \<open>Auxiliary facts\<close>

lemma unat_all_ones: "unat (- 1 :: 'a::len word) = 2 ^ LENGTH('a) - 1"
  by (simp add: unsigned_minus_1_eq_mask mask_eq_exp_minus_1)

lemma replicate_numeral_eq: "replicate (numeral k) x = x # replicate (pred_numeral k) x"
  by (simp add: numeral_eq_Suc)

lemma le_bytes_numeral:
  "le_bytes (numeral k) v = of_nat (v mod 256) # le_bytes (pred_numeral k) (v div 256)"
proof -
  have "numeral k = Suc (pred_numeral k)"
    by (rule numeral_eq_Suc)
  then show ?thesis
    by (simp only: le_bytes.simps)
qed

lemma sorted_nth_Suc: "sorted xs \<Longrightarrow> Suc i < length xs \<Longrightarrow> xs ! i \<le> xs ! Suc i"
  by (simp add: sorted_iff_nth_mono)

subsection \<open>The views\<close>

text \<open>Claim C7. For a row that keeps its contract and a position \<open>i\<close> below its length,
  \<^verbatim>\<open>get_value\<close> has no failing path: it is \<open>1\<close> when the value array is absent, and
  when the array is present the position lies inside it and the result is the element
  stored there.\<close>

theorem get_value_total:
  assumes "wf_row row" and "i < row_length row"
  shows "(row_value row = None \<longrightarrow> get_value row i = 1) \<and>
         (\<forall>vs. row_value row = Some vs \<longrightarrow> i < length vs \<and> get_value row i = vs ! i)"
  using assms by (auto simp: get_value_def wf_row_def)

theorem get_value_total_witness:
  "get_value \<lparr> row_label = 0::int, row_length = 2, row_index = [3::32 word, 5], row_value = None \<rparr> 1 = 1 \<and>
   get_value \<lparr> row_label = 0::int, row_length = 2, row_index = [3::32 word, 5], row_value = Some [7, 9] \<rparr> 1 = 9"
  using get_value_total [of "\<lparr> row_label = 0::int, row_length = 2, row_index = [3::32 word, 5], row_value = None \<rparr>" 1]
    get_value_total [of "\<lparr> row_label = 0::int, row_length = 2, row_index = [3::32 word, 5], row_value = Some [7, 9] \<rparr>" 1]
  by (simp add: wf_row_def)

text \<open>Claim C8. For a well-formed block and a row id below \<^verbatim>\<open>size\<close>, \<^verbatim>\<open>operator[]\<close>
  yields the row view with the label of that row, the length
  \<^verbatim>\<open>offset[r+1] - offset[r]\<close> (an exact difference: the offsets do not decrease), the
  index pointer advanced by \<^verbatim>\<open>offset[r]\<close>, and the value pointer advanced alike or
  \<^verbatim>\<open>NULL\<close> when the block has none; the view keeps the contract of a row. For a row id
  that is not below \<^verbatim>\<open>size\<close> the \<^verbatim>\<open>CHECK\<close> fails. The accessor is a function of the
  block and the row id alone and returns nothing but the view.\<close>

theorem RowBlock_at_row:
  assumes "wf_block b"
  shows "(rowid < blk_size b \<longrightarrow>
            (\<exists>row. RowBlock_at b rowid = Inr row \<and>
                   row_label row = blk_label b ! rowid \<and>
                   row_length row = blk_offset b ! (rowid + 1) - blk_offset b ! rowid \<and>
                   blk_offset b ! rowid + row_length row = blk_offset b ! (rowid + 1) \<and>
                   row_index row = drop (blk_offset b ! rowid) (blk_index b) \<and>
                   row_value row = map_option (drop (blk_offset b ! rowid)) (blk_value b) \<and>
                   wf_row row)) \<and>
         (blk_size b \<le> rowid \<longrightarrow> RowBlock_at b rowid = Inl OutOfRange)"
proof (intro conjI impI)
  assume r: "rowid < blk_size b"
  from assms have len: "length (blk_offset b) = blk_size b + 1" and srt: "sorted (blk_offset b)"
    by (simp_all add: wf_block_def)
  from r len srt have le1: "blk_offset b ! rowid \<le> blk_offset b ! (rowid + 1)"
    by (simp add: sorted_nth_Suc)
  from r len srt have le2: "blk_offset b ! (rowid + 1) \<le> blk_offset b ! blk_size b"
    by (simp add: sorted_iff_nth_mono)
  from assms have idx: "blk_offset b ! blk_size b \<le> length (blk_index b)"
    by (simp add: wf_block_def)
  from assms have vals: "\<And>vs. blk_value b = Some vs \<Longrightarrow> blk_offset b ! blk_size b \<le> length vs"
    by (simp add: wf_block_def)
  let ?row = "\<lparr> row_label = blk_label b ! rowid,
              row_length = blk_offset b ! (rowid + 1) - blk_offset b ! rowid,
              row_index = drop (blk_offset b ! rowid) (blk_index b),
              row_value = (case blk_value b of
                             None \<Rightarrow> None
                           | Some vs \<Rightarrow> Some (drop (blk_offset b ! rowid) vs)) \<rparr>"
  have eq: "RowBlock_at b rowid = Inr ?row"
    using r by (simp add: RowBlock_at_def)
  have wf: "wf_row ?row"
    using le1 le2 idx vals by (auto simp: wf_row_def split: option.splits)
  have v: "row_value ?row = map_option (drop (blk_offset b ! rowid)) (blk_value b)"
    by (simp split: option.splits)
  show "\<exists>row. RowBlock_at b rowid = Inr row \<and>
                   row_label row = blk_label b ! rowid \<and>
                   row_length row = blk_offset b ! (rowid + 1) - blk_offset b ! rowid \<and>
                   blk_offset b ! rowid + row_length row = blk_offset b ! (rowid + 1) \<and>
                   row_index row = drop (blk_offset b ! rowid) (blk_index b) \<and>
                   row_value row = map_option (drop (blk_offset b ! rowid)) (blk_value b) \<and>
                   wf_row row"
    using eq wf v le1 by (intro exI [of _ ?row]) simp
next
  assume "blk_size b \<le> rowid"
  then show "RowBlock_at b rowid = Inl OutOfRange"
    by (simp add: RowBlock_at_def)
qed

theorem RowBlock_at_row_witness:
  "(\<exists>row. RowBlock_at \<lparr> blk_size = 2, blk_offset = [0, 2, 3], blk_label = [1::int, -1],
                         blk_index = [1::32 word, 3, 2], blk_value = Some [5, 20, 10] \<rparr> 1 = Inr row \<and>
          row_label row = - 1 \<and> row_length row = 1 \<and> row_index row = [2] \<and> row_value row = Some [10]) \<and>
   RowBlock_at \<lparr> blk_size = 2, blk_offset = [0, 2, 3], blk_label = [1::int, -1],
                 blk_index = [1::32 word, 3, 2], blk_value = Some [5, 20, 10] \<rparr> 2 = Inl OutOfRange"
  using RowBlock_at_row [of "\<lparr> blk_size = 2, blk_offset = [0, 2, 3], blk_label = [1::int, -1],
                 blk_index = [1::32 word, 3, 2], blk_value = Some [5, 20, 10] \<rparr>" 1]
    RowBlock_at_row [of "\<lparr> blk_size = 2, blk_offset = [0, 2, 3], blk_label = [1::int, -1],
                 blk_index = [1::32 word, 3, 2], blk_value = Some [5, 20, 10] \<rparr>" 2]
  by (auto simp add: wf_block_def)

text \<open>Claim C6. \<^verbatim>\<open>SDot\<close> accumulates the weighted sum in its local variable and then
  ends without a \<^verbatim>\<open>return\<close> statement. On the row with the single feature id 0 and
  no value array, and the weight vector \<open>[2]\<close>, the local sum is 2 and the call hands
  back no value.\<close>

theorem SDot_returns_nothing:
  "SDot_sum \<lparr> row_label = 0::int, row_length = 1, row_index = [0::32 word], row_value = None \<rparr> [2] 1 = Inr 2 \<and>
   SDot \<lparr> row_label = 0::int, row_length = 1, row_index = [0::32 word], row_value = None \<rparr> [2] 1 = Inr None"
  by (simp add: SDot_def SDot_sum_def)

subsection \<open>The pushes\<close>

lemma unat_ucast_below:
  fixes x :: "'b::len word"
  assumes "unat x < unat (- 1 :: 'a::len word)"
  shows "unat (ucast x :: 'a word) = unat x"
proof -
  from assms have "unat x < 2 ^ LENGTH('a)"
    by (simp add: unat_all_ones)
  then show ?thesis
    by (simp add: unsigned_ucast_eq take_bit_nat_eq_self)
qed

lemma Push_row_indices_Ok:
  fixes c :: "('a::len word, 'r) RowBlockContainer"
  assumes "\<forall>x\<in>set xs. unat x < unat (- 1 :: 'a word)"
  shows "Push_row_indices xs c =
           Ok (c\<lparr> index := index c @ map ucast xs,
                  max_index := foldl max (max_index c) (map ucast xs) \<rparr>)"
  using assms by (induction xs arbitrary: c) simp_all

lemma Push_row_indices_Fail:
  fixes c :: "('a::len word, 'r) RowBlockContainer"
  assumes "\<exists>x\<in>set xs. unat (- 1 :: 'a word) \<le> unat x"
  shows "\<exists>c'. Push_row_indices xs c = Fail IndexOverflow c' \<and>
              offset c' = offset c \<and> value c' = value c \<and> label c' = label c"
  using assms
proof (induction xs arbitrary: c)
  case Nil
  then show ?case by simp
next
  case (Cons x xs)
  show ?case
  proof (cases "unat x < unat (- 1 :: 'a word)")
    case True
    with Cons.prems have "\<exists>y\<in>set xs. unat (- 1 :: 'a word) \<le> unat y"
      by auto
    from Cons.IH [OF this, of "c\<lparr> index := index c @ [ucast x],
                                  max_index := max (max_index c) (ucast x) \<rparr>"] True
    show ?thesis
      by simp
  next
    case False
    then show ?thesis by simp
  qed
qed

lemma Push_row_Ok:
  fixes c :: "('a::len word, 'r) RowBlockContainer"
  assumes "\<forall>x\<in>set (take (row_length row) (row_index row)). unat x < unat (- 1 :: 'a word)"
  shows "Push_row row c =
           Ok (c\<lparr> offset := offset c @ [length (index c) + length (take (row_length row) (row_index row))],
                  label := label c @ [row_label row],
                  index := index c @ map ucast (take (row_length row) (row_index row)),
                  value := value c @ (case row_value row of None \<Rightarrow> []
                                      | Some vs \<Rightarrow> take (row_length row) vs),
                  max_index := foldl max (max_index c)
                                 (map ucast (take (row_length row) (row_index row))) \<rparr>)"
  by (simp add: Push_row_def Push_row_indices_Ok [OF assms] split: option.splits)

lemma Push_row_Fail:
  fixes c :: "('a::len word, 'r) RowBlockContainer"
  assumes "\<exists>x\<in>set (take (row_length row) (row_index row)). unat (- 1 :: 'a word) \<le> unat x"
  shows "\<exists>c'. Push_row row c = Fail IndexOverflow c' \<and>
              offset c' = offset c \<and> value c' = value c \<and> label c' = label c @ [row_label row]"
proof -
  from Push_row_indices_Fail [OF assms, of "c\<lparr> label := label c @ [row_label row] \<rparr>"]
  obtain c' where "Push_row_indices (take (row_length row) (row_index row))
                     (c\<lparr> label := label c @ [row_label row] \<rparr>) = Fail IndexOverflow c'"
    and "offset c' = offset c" and "value c' = value c" and "label c' = label c @ [row_label row]"
    by auto
  then show ?thesis
    by (simp add: Push_row_def)
qed

lemma length_resize: "length (resize xs n) = n"
  by (simp add: resize_def)

lemma resize_grow: "resize xs (length xs + n) = xs @ replicate n 0"
  by (simp add: resize_def)

lemma store_at_end:
  assumes "length src = n"
  shows "store_at (xs @ replicate n 0) (length xs) src = Some (xs @ src)"
  using assms by (auto simp: store_at_def)

lemma store_at_length: "store_at dst pos src = Some r \<Longrightarrow> length r = length dst"
  by (auto simp: store_at_def split: if_splits)

lemma Push_block_indices_Ok:
  fixes c :: "('a::len word, 'r) RowBlockContainer"
  assumes "\<forall>x\<in>set xs. unat x < unat (- 1 :: 'a word)"
    and "p + length xs \<le> length (index c)"
  shows "Push_block_indices xs p c =
           Ok (c\<lparr> index := take p (index c) @ map ucast xs @ drop (p + length xs) (index c),
                  max_index := foldl max (max_index c) (map ucast xs) \<rparr>)"
  using assms
proof (induction xs arbitrary: p c)
  case Nil
  then show ?case by simp
next
  case (Cons x xs)
  let ?c = "c\<lparr> index := (index c)[p := ucast x], max_index := max (max_index c) (ucast x) \<rparr>"
  from Cons.prems have p: "p < length (index c)" and x: "unat x < unat (- 1 :: 'a word)"
    by simp_all
  from Cons.prems have "\<forall>y\<in>set xs. unat y < unat (- 1 :: 'a word)"
    and "Suc p + length xs \<le> length (index ?c)"
    by simp_all
  from Cons.IH [OF this]
  have "Push_block_indices xs (Suc p) ?c =
          Ok (?c\<lparr> index := take (Suc p) (index ?c) @ map ucast xs @ drop (Suc p + length xs) (index ?c),
                   max_index := foldl max (max_index ?c) (map ucast xs) \<rparr>)" .
  moreover have "take (Suc p) (index ?c) = take p (index c) @ [ucast x]"
    using p by (simp add: take_Suc_conv_app_nth)
  moreover have "drop (Suc p + length xs) (index ?c) = drop (p + length (x # xs)) (index c)"
    by simp
  ultimately show ?case
    using p x by simp
qed

lemma Push_block_indices_Fail:
  fixes c :: "('a::len word, 'r) RowBlockContainer"
  assumes "\<exists>x\<in>set xs. unat (- 1 :: 'a word) \<le> unat x"
    and "p + length xs \<le> length (index c)"
  shows "\<exists>c'. Push_block_indices xs p c = Fail IndexOverflow c'"
  using assms
proof (induction xs arbitrary: p c)
  case Nil
  then show ?case by simp
next
  case (Cons x xs)
  show ?case
  proof (cases "unat x < unat (- 1 :: 'a word)")
    case True
    let ?c = "c\<lparr> index := (index c)[p := ucast x], max_index := max (max_index c) (ucast x) \<rparr>"
    from Cons.prems True have "\<exists>y\<in>set xs. unat (- 1 :: 'a word) \<le> unat y"
      and "Suc p + length xs \<le> length (index ?c)"
      by auto
    from Cons.IH [OF this] True Cons.prems(2) show ?thesis
      by simp
  next
    case False
    then show ?thesis by simp
  qed
qed

lemma Push_block_values_Ok:
  assumes "Push_block_values batch sz ndata c = Ok c'"
  shows "offset c' = offset c \<and> label c' = label c \<and> index c' = index c \<and>
         max_index c' = max_index c \<and>
         length (value c') =
           length (value c) + (case blk_value batch of None \<Rightarrow> 0 | Some vs \<Rightarrow> ndata)"
  using assms
  by (auto simp: Push_block_values_def Let_def length_resize dest: store_at_length
           split: option.splits)

lemma Push_block_offsets_Ok:
  assumes "sz + 1 = length (offset c)"
  shows "Push_block_offsets batch sz c =
           Ok (c\<lparr> offset := offset c @
                  map (\<lambda>i. offset c ! sz + blk_offset batch ! (i + 1)) [0 ..< blk_size batch] \<rparr>)"
proof -
  let ?new = "map (\<lambda>i. offset c ! sz + blk_offset batch ! (i + 1)) [0 ..< blk_size batch]"
  from assms have len: "length (offset c) = Suc sz"
    by simp
  have grow: "resize (offset c) (length (offset c) + blk_size batch) =
                offset c @ replicate (blk_size batch) 0"
    by (rule resize_grow)
  have "store_at (offset c @ replicate (blk_size batch) 0) (length (offset c)) ?new =
          Some (offset c @ ?new)"
    by (rule store_at_end) simp
  then have "store_at (offset c @ replicate (blk_size batch) 0) (sz + 1) ?new =
          Some (offset c @ ?new)"
    by (simp add: len)
  then show ?thesis
    unfolding Push_block_offsets_def Let_def grow by (simp add: len)
qed

lemma Push_block_coherent:
  fixes c :: "('a::len word, 'r::zero) RowBlockContainer"
  assumes lab: "length (label c) + 1 = length (offset c)"
    and idx: "last (offset c) = length (index c)"
    and wf: "wf_block batch"
  shows "Push_block batch c =
     (case Push_block_indices (take (blk_offset batch ! blk_size batch) (blk_index batch))
             (length (index c))
             (c\<lparr> label := label c @ take (blk_size batch) (blk_label batch),
                 index := index c @ replicate (blk_offset batch ! blk_size batch) 0 \<rparr>) of
        Fail e c4 \<Rightarrow> Fail e c4
      | Ok c4 \<Rightarrow>
          (case Push_block_values batch (length (label c)) (blk_offset batch ! blk_size batch) c4 of
             Fail e c5 \<Rightarrow> Fail e c5
           | Ok c5 \<Rightarrow> Push_block_offsets batch (length (label c)) c5))"
proof -
  from wf have "length (take (blk_size batch) (blk_label batch)) = blk_size batch"
    by (simp add: wf_block_def)
  then have st: "store_at (label c @ replicate (blk_size batch) 0) (length (label c))
                   (take (blk_size batch) (blk_label batch)) =
                 Some (label c @ take (blk_size batch) (blk_label batch))"
    by (rule store_at_end)
  from lab have ne: "offset c \<noteq> []"
    by auto
  show ?thesis
    unfolding Push_block_def Let_def resize_grow using st ne idx by simp
qed

lemma Push_block_Ok:
  fixes c :: "('a::len word, 'r::zero) RowBlockContainer"
  assumes lab: "length (label c) + 1 = length (offset c)"
    and idx: "last (offset c) = length (index c)"
    and wf: "wf_block batch"
    and ok: "Push_block batch c = Ok c'"
  shows "(\<forall>x\<in>set (take (blk_offset batch ! blk_size batch) (blk_index batch)).
            unat x < unat (- 1 :: 'a word)) \<and>
         offset c' = offset c @
           map (\<lambda>i. length (index c) + blk_offset batch ! (i + 1)) [0 ..< blk_size batch] \<and>
         label c' = label c @ take (blk_size batch) (blk_label batch) \<and>
         index c' = index c @ map ucast (take (blk_offset batch ! blk_size batch) (blk_index batch)) \<and>
         max_index c' = foldl max (max_index c)
           (map ucast (take (blk_offset batch ! blk_size batch) (blk_index batch))) \<and>
         length (value c') = length (value c) +
           (case blk_value batch of None \<Rightarrow> 0 | Some vs \<Rightarrow> blk_offset batch ! blk_size batch)"
proof -
  let ?n = "blk_offset batch ! blk_size batch"
  let ?ids = "take ?n (blk_index batch)"
  let ?c3 = "c\<lparr> label := label c @ take (blk_size batch) (blk_label batch),
                 index := index c @ replicate ?n 0 \<rparr>"
  from wf have len: "length ?ids = ?n"
    by (simp add: wf_block_def)
  then have room: "length (index c) + length ?ids \<le> length (index ?c3)"
    by simp
  note unfold = Push_block_coherent [OF lab idx wf]
  have valid: "\<forall>x\<in>set ?ids. unat x < unat (- 1 :: 'a word)"
  proof (rule ccontr)
    assume "\<not> (\<forall>x\<in>set ?ids. unat x < unat (- 1 :: 'a word))"
    then have "\<exists>x\<in>set ?ids. unat (- 1 :: 'a word) \<le> unat x"
      by (auto simp: not_less)
    from Push_block_indices_Fail [OF this room] ok show False
      by (auto simp: unfold)
  qed
  let ?c4 = "?c3\<lparr> index := take (length (index c)) (index ?c3) @ map ucast ?ids @
                        drop (length (index c) + length ?ids) (index ?c3),
                 max_index := foldl max (max_index ?c3) (map ucast ?ids) \<rparr>"
  have c4: "Push_block_indices ?ids (length (index c)) ?c3 = Ok ?c4"
    by (rule Push_block_indices_Ok [OF valid room])
  from ok obtain c5 where v: "Push_block_values batch (length (label c)) ?n ?c4 = Ok c5"
    and o: "Push_block_offsets batch (length (label c)) c5 = Ok c'"
    by (auto simp: unfold c4 split: result.splits)
  from Push_block_values_Ok [OF v] len
  have off5: "offset c5 = offset c"
    and lab5: "label c5 = label c @ take (blk_size batch) (blk_label batch)"
    and idx5: "index c5 = index c @ map ucast ?ids"
    and max5: "max_index c5 = foldl max (max_index c) (map ucast ?ids)"
    and val5: "length (value c5) =
               length (value c) + (case blk_value batch of None \<Rightarrow> 0 | Some vs \<Rightarrow> ?n)"
    by simp_all
  from lab lab5 off5 have sz: "length (label c) + 1 = length (offset c5)"
    by simp
  from lab have "offset c \<noteq> []"
    by auto
  with lab idx have shift: "offset c ! length (label c) = length (index c)"
    by (simp add: last_conv_nth flip: lab)
  from o have c': "c' = c5\<lparr> offset := offset c5 @
                  map (\<lambda>i. offset c5 ! length (label c) + blk_offset batch ! (i + 1))
                    [0 ..< blk_size batch] \<rparr>"
    by (simp add: Push_block_offsets_Ok [OF sz])
  show ?thesis
    using valid by (subst (1 2 3 4 5) c') (simp add: off5 lab5 idx5 max5 val5 shift)
qed

subsection \<open>Coherence is kept by every successful operation\<close>

lemma sorted_le_last: "sorted xs \<Longrightarrow> x \<in> set xs \<Longrightarrow> x \<le> last xs"
  by (induction xs) (auto split: if_splits)

lemma ucast_not_all_ones:
  fixes x :: "'b::len word"
  assumes "unat x < unat (- 1 :: 'a::len word)"
  shows "(ucast x :: 'a word) \<noteq> - 1"
proof
  assume "(ucast x :: 'a word) = - 1"
  then have "unat (ucast x :: 'a word) = unat (- 1 :: 'a word)"
    by simp
  with unat_ucast_below [OF assms] assms show False
    by simp
qed

lemma coherent_Clear: "coherent (Clear c)"
  by (simp add: coherent_def Clear_def)

lemma Push_row_Ok_valid:
  fixes c :: "('a::len word, 'r) RowBlockContainer"
  assumes "Push_row row c = Ok c'"
  shows "\<forall>x\<in>set (take (row_length row) (row_index row)). unat x < unat (- 1 :: 'a word)"
proof (rule ccontr)
  assume "\<not> ?thesis"
  then have "\<exists>x\<in>set (take (row_length row) (row_index row)). unat (- 1 :: 'a word) \<le> unat x"
    by (auto simp: not_less)
  from Push_row_Fail [OF this, of c] assms show False
    by auto
qed

lemma coherent_Push_row:
  fixes c :: "('a::len word, 'r) RowBlockContainer"
  assumes coh: "coherent c" and ok: "Push_row row c = Ok c'"
  shows "coherent c'"
proof -
  let ?ids = "take (row_length row) (row_index row)"
  note valid = Push_row_Ok_valid [OF ok]
  from ok have c': "c' = c\<lparr> offset := offset c @ [length (index c) + length ?ids],
                  label := label c @ [row_label row],
                  index := index c @ map ucast ?ids,
                  value := value c @ (case row_value row of None \<Rightarrow> []
                                      | Some vs \<Rightarrow> take (row_length row) vs),
                  max_index := foldl max (max_index c) (map ucast ?ids) \<rparr>"
    by (simp add: Push_row_Ok [OF valid])
  from coh have ne: "offset c \<noteq> []"
    by (auto simp: coherent_def)
  from coh have "\<forall>x\<in>set (offset c). x \<le> length (index c)"
    by (auto simp: coherent_def dest: sorted_le_last)
  then have srt: "sorted (offset c @ [length (index c) + length ?ids])"
    using coh by (auto simp: coherent_def sorted_append)
  from valid have ids: "list_all (\<lambda>i. i \<noteq> - 1) (map ucast ?ids :: 'a word list)"
    by (auto simp: list_all_iff dest: ucast_not_all_ones)
  show ?thesis
    using coh ne srt ids by (subst c') (simp add: coherent_def)
qed

lemma sorted_shifted_offsets:
  fixes os :: "nat list"
  assumes "sorted os" and "length os = n + 1"
  shows "sorted (map (\<lambda>i. b + os ! (i + 1)) [0 ..< n])"
proof -
  have "os ! (i + 1) \<le> os ! (j + 1)" if "i \<le> j" and "j < n" for i j
    by (rule sorted_nth_mono) (use assms that in simp_all)
  then show ?thesis
    by (auto simp: sorted_iff_nth_mono)
qed

lemma last_shifted_offsets:
  "0 < n \<Longrightarrow> last (map (\<lambda>i. b + os ! Suc i) [0 ..< n]) = b + os ! n"
  by (cases n) (simp_all add: last_map)

lemma coherent_Push_block:
  fixes c :: "('a::len word, 'r::zero) RowBlockContainer"
  assumes coh: "coherent c" and wf: "wf_block batch" and ok: "Push_block batch c = Ok c'"
  shows "coherent c'"
proof -
  let ?n = "blk_offset batch ! blk_size batch"
  let ?ids = "take ?n (blk_index batch)"
  let ?new = "map (\<lambda>i. length (index c) + blk_offset batch ! (i + 1)) [0 ..< blk_size batch]"
  from coh have lab: "length (label c) + 1 = length (offset c)"
    and idx: "last (offset c) = length (index c)"
    by (simp_all add: coherent_def)
  from Push_block_Ok [OF lab idx wf ok]
  have valid: "\<forall>x\<in>set ?ids. unat x < unat (- 1 :: 'a word)"
    and off: "offset c' = offset c @ ?new"
    and lbl: "label c' = label c @ take (blk_size batch) (blk_label batch)"
    and ind: "index c' = index c @ map ucast ?ids"
    and mx: "max_index c' = foldl max (max_index c) (map ucast ?ids)"
    by simp_all
  from wf have len: "?n \<le> length (blk_index batch)"
    and lenl: "blk_size batch \<le> length (blk_label batch)"
    and zero: "blk_offset batch ! 0 = 0"
    by (simp_all add: wf_block_def)
  from coh have ne: "offset c \<noteq> []"
    by (auto simp: coherent_def)
  from coh have below: "\<forall>x\<in>set (offset c). x \<le> length (index c)"
    by (auto simp: coherent_def dest: sorted_le_last)
  from wf have "sorted ?new"
    by (intro sorted_shifted_offsets) (simp_all add: wf_block_def)
  with below coh have srt: "sorted (offset c @ ?new)"
    by (auto simp: coherent_def sorted_append intro: order_trans)
  have lst: "last (offset c @ ?new) = length (index c) + ?n"
  proof (cases "blk_size batch = 0")
    case True
    with zero idx show ?thesis by simp
  next
    case False
    then show ?thesis by (simp add: last_shifted_offsets)
  qed
  from valid have ids: "list_all (\<lambda>i. i \<noteq> - 1) (map ucast ?ids :: 'a word list)"
    by (auto simp: list_all_iff dest: ucast_not_all_ones)
  have "length (label c') + 1 = length (offset c')"
    using lab lenl by (simp add: off lbl)
  moreover have "last (offset c') = length (index c')"
    using lst len by (simp add: off ind)
  moreover have "sorted (offset c')"
    using srt by (simp add: off)
  moreover have "hd (offset c') = 0"
    using coh ne by (simp add: off coherent_def)
  moreover have "list_all (\<lambda>i. i \<noteq> - 1) (index c')"
    using coh ids by (simp add: ind coherent_def)
  moreover have "max_index c' = foldl max 0 (index c')"
    using coh by (simp add: ind mx coherent_def)
  ultimately show ?thesis
    by (simp add: coherent_def)
qed

lemma coherent_perform:
  fixes c :: "('a::len word, 'r::zero) RowBlockContainer"
  assumes "coherent c" and "wf_operation x" and "perform x c = Ok c'"
  shows "coherent c'"
  using assms
  by (cases x) (auto simp: coherent_Clear intro: coherent_Push_row coherent_Push_block)

lemma coherent_run:
  fixes c :: "('a::len word, 'r::zero) RowBlockContainer"
  assumes "coherent c" and "\<forall>x\<in>set xs. wf_operation x" and "run xs c = Ok c'"
  shows "coherent c'"
  using assms
proof (induction xs arbitrary: c)
  case Nil
  then show ?case by simp
next
  case (Cons x xs)
  from Cons.prems(3) obtain c1 where step: "perform x c = Ok c1" and rest: "run xs c1 = Ok c'"
    by (auto split: result.splits)
  from Cons.prems(1,2) step have "coherent c1"
    by (auto intro: coherent_perform)
  with Cons.IH rest Cons.prems(2) show ?case
    by auto
qed

subsection \<open>Invariants of reachable containers\<close>

lemma valued_operations_run:
  "run valued_operations (Clear (empty_container :: (32 word, int) RowBlockContainer)) =
     Ok \<lparr> offset = [0, 2, 3, 5], label = [1, - 1, 1], index = [1, 3, 2, 7, 4],
          value = [5, 20, 10, 30, 40], max_index = 7 \<rparr>"
  by (simp add: valued_operations_def parsed_block_def empty_container_def Clear_def Push_row_def
      Push_block_def resize_def store_at_def Push_block_values_def
      Push_block_offsets_def unat_all_ones Let_def upt_rec replicate_numeral_eq)

lemma valued_operations_wf: "list_all wf_operation valued_operations"
  by (simp add: valued_operations_def parsed_block_def wf_block_def wf_row_def)

lemma plain_operations_run:
  "run plain_operations (Clear (empty_container :: (32 word, int) RowBlockContainer)) =
     Ok \<lparr> offset = [0, 2], label = [- 1], index = [2, 6], value = [], max_index = 6 \<rparr>"
  by (simp add: plain_operations_def empty_container_def Clear_def Push_row_def unat_all_ones)

lemma plain_operations_wf: "list_all wf_operation plain_operations"
  by (simp add: plain_operations_def wf_row_def)

text \<open>A remark outside the claims: the bulk push copies the values of the batch to
  \<^verbatim>\<open>BeginPtr(value) + size\<close>, where \<^verbatim>\<open>size\<close> counts the labels, not the values, that the
  container held. Pushing the block after a row of two features overwrites the second
  value of that row and leaves the last new slot zero.\<close>

lemma Push_block_misplaces_values:
  "run (rev valued_operations) (Clear (empty_container :: (32 word, int) RowBlockContainer)) =
     Ok \<lparr> offset = [0, 2, 4, 5], label = [1, 1, - 1], index = [7, 4, 1, 3, 2],
          value = [30, 5, 20, 10, 0], max_index = 7 \<rparr>"
  by (simp add: valued_operations_def parsed_block_def empty_container_def Clear_def Push_row_def
      Push_block_def resize_def store_at_def Push_block_values_def
      Push_block_offsets_def unat_all_ones Let_def upt_rec replicate_numeral_eq)

lemma coherent_reachable:
  fixes c :: "('a::len word, 'r::zero) RowBlockContainer"
  assumes "run xs (Clear c0) = Ok c" and "\<forall>x\<in>set xs. wf_operation x"
  shows "coherent c"
  using coherent_Clear assms(2,1) by (rule coherent_run)

text \<open>Claim C4. In every state that a sequence of successful \<^verbatim>\<open>Clear\<close>, single-row
  \<^verbatim>\<open>Push\<close> and bulk \<^verbatim>\<open>Push\<close> calls with well-formed operands reaches from a cleared
  container, \<^verbatim>\<open>offset\<close> is not empty, starts with 0, does not decrease, and ends with
  the length of \<^verbatim>\<open>index\<close>.\<close>

theorem offset_invariant:
  fixes c :: "('a::len word, 'r::zero) RowBlockContainer"
  assumes "run xs (Clear c0) = Ok c" and "\<forall>x\<in>set xs. wf_operation x"
  shows "offset c \<noteq> [] \<and> hd (offset c) = 0 \<and> sorted (offset c) \<and>
         last (offset c) = length (index c)"
proof -
  from assms have "coherent c"
    by (rule coherent_reachable)
  then show ?thesis
    by (auto simp: coherent_def)
qed

theorem offset_invariant_witness:
  "run valued_operations (Clear (empty_container :: (32 word, int) RowBlockContainer)) =
     Ok \<lparr> offset = [0, 2, 3, 5], label = [1, - 1, 1], index = [1, 3, 2, 7, 4],
          value = [5, 20, 10, 30, 40], max_index = 7 \<rparr> \<and>
   list_all wf_operation valued_operations \<and>
   hd [0, 2, 3, 5 :: nat] = 0 \<and> sorted [0, 2, 3, 5 :: nat] \<and>
   last [0, 2, 3, 5] = length [1, 3, 2, 7, 4 :: 32 word]"
proof -
  from valued_operations_wf have wf: "\<forall>x\<in>set valued_operations. wf_operation x"
    by (simp add: list_all_iff)
  from offset_invariant [OF valued_operations_run wf] valued_operations_run valued_operations_wf
  show ?thesis
    by simp
qed

lemma foldl_max_ge: "(m :: 'x::linorder) \<le> foldl max m xs"
proof (induction xs arbitrary: m)
  case Nil
  then show ?case by simp
next
  case (Cons x xs)
  have "m \<le> max m x" by simp
  also have "\<dots> \<le> foldl max (max m x) xs" by (rule Cons.IH)
  finally show ?case by simp
qed

lemma foldl_max_Max: "foldl max (m :: 'x::linorder) xs = Max (insert m (set xs))"
proof (induction xs arbitrary: m)
  case Nil
  then show ?case by simp
next
  case (Cons x xs)
  have "Max (insert (max m x) (set xs)) = Max (insert m (insert x (set xs)))"
    by (cases "set xs = {}") (simp_all add: max.assoc)
  with Cons.IH [of "max m x"] show ?case
    by simp
qed

lemma foldl_max_mem: "foldl max (m :: 'x::linorder) xs \<in> insert m (set xs)"
  unfolding foldl_max_Max by (rule Max_in) simp_all

lemma unat_below_all_ones:
  fixes m :: "'a::len word"
  assumes "m \<noteq> - 1"
  shows "unat m < unat (- 1 :: 'a word)"
proof -
  have "m \<le> - 1" by simp
  with assms have "m < - 1" by (simp add: less_le)
  then show ?thesis by (simp add: word_less_nat_alt)
qed

lemma max_index_below_limit:
  fixes c :: "('a::len word, 'r) RowBlockContainer"
  assumes "coherent c"
  shows "unat (max_index c) < unat (- 1 :: 'a word)"
proof -
  from assms have "max_index c = foldl max 0 (index c)"
    by (simp add: coherent_def)
  with foldl_max_mem [of 0 "index c"] have "max_index c \<in> insert 0 (set (index c))"
    by simp
  moreover from assms have "\<forall>i\<in>set (index c). i \<noteq> - 1"
    by (simp add: coherent_def list_all_iff)
  moreover have "(0 :: 'a word) \<noteq> - 1"
    by simp
  ultimately have "max_index c \<noteq> - 1"
    by auto
  then show ?thesis
    by (rule unat_below_all_ones)
qed

lemma NumCol_no_wrap:
  fixes it :: "('a::len word, 'r) BasicRowIter"
  assumes "coherent (m_data it)" and "LENGTH('a) \<le> 64"
  shows "NumCol it = unat (max_index (m_data it)) + 1"
proof -
  from max_index_below_limit [OF assms(1)]
  have "unat (max_index (m_data it)) + 1 < 2 ^ LENGTH('a)"
    by (simp add: unat_all_ones)
  also from assms(2) have "(2 :: nat) ^ LENGTH('a) \<le> 2 ^ 64"
    by (rule power_increasing) simp
  finally have "unat (max_index (m_data it)) + 1 < 2 ^ 64" .
  then show ?thesis
    by (simp add: NumCol_def)
qed

lemma max_index_perform:
  fixes c :: "('a::len word, 'r::zero) RowBlockContainer"
  assumes "coherent c" and "wf_operation x" and "x \<noteq> OpClear" and "perform x c = Ok c'"
  shows "max_index c \<le> max_index c'"
proof (cases x)
  case OpClear
  with assms(3) show ?thesis by simp
next
  case (OpPushRow row)
  with assms(4) have ok: "Push_row row c = Ok c'" by simp
  from ok show ?thesis
    by (simp add: Push_row_Ok [OF Push_row_Ok_valid [OF ok]]) (auto simp: foldl_max_ge)
next
  case (OpPushBlock batch)
  with assms have ok: "Push_block batch c = Ok c'" and wf: "wf_block batch" by simp_all
  from assms(1) have "length (label c) + 1 = length (offset c)"
    and "last (offset c) = length (index c)"
    by (simp_all add: coherent_def)
  from Push_block_Ok [OF this wf ok] show ?thesis
    by (simp add: foldl_max_ge)
qed

lemma operand_ids_perform:
  fixes c :: "('a::len word, 'r::zero) RowBlockContainer"
  assumes coh: "coherent c" and wf: "wf_operation x" and ok: "perform x c = Ok c'"
    and push: "x \<noteq> OpClear"
  shows "index c' = index c @ map ucast (operand_ids x) \<and>
         (\<forall>i\<in>set (operand_ids x). unat i < unat (- 1 :: 'a word))"
proof (cases x)
  case OpClear
  with push show ?thesis by simp
next
  case (OpPushRow row)
  with ok have ok': "Push_row row c = Ok c'" by simp
  note valid = Push_row_Ok_valid [OF ok']
  from ok' have "index c' = index c @ map ucast (take (row_length row) (row_index row))"
    by (simp add: Push_row_Ok [OF valid]) auto
  with valid OpPushRow show ?thesis
    by simp
next
  case (OpPushBlock batch)
  with ok wf have ok': "Push_block batch c = Ok c'" and wfb: "wf_block batch" by simp_all
  from coh have "length (label c) + 1 = length (offset c)"
    and "last (offset c) = length (index c)"
    by (simp_all add: coherent_def)
  from Push_block_Ok [OF this wfb ok'] OpPushBlock show ?thesis
    by simp
qed

lemma accepted_ids_run:
  fixes c :: "('a::len word, 'r::zero) RowBlockContainer"
  assumes "coherent c" and "\<forall>x\<in>set xs. wf_operation x" and "run xs c = Ok c'"
    and "index c = map ucast acc" and "\<forall>i\<in>set acc. unat i < unat (- 1 :: 'a word)"
  shows "index c' = map ucast (accepted_ids_from acc xs) \<and>
         (\<forall>i\<in>set (accepted_ids_from acc xs). unat i < unat (- 1 :: 'a word))"
  using assms
proof (induction xs arbitrary: c acc)
  case Nil
  then show ?case by simp
next
  case (Cons x xs)
  from Cons.prems(3) obtain c1 where step: "perform x c = Ok c1" and rest: "run xs c1 = Ok c'"
    by (auto split: result.splits)
  from Cons.prems(2) have wfx: "wf_operation x" and wfs: "\<forall>y\<in>set xs. wf_operation y"
    by simp_all
  from Cons.prems(1) wfx step have coh1: "coherent c1"
    by (rule coherent_perform)
  show ?case
  proof (cases "x = OpClear")
    case True
    with step have "index c1 = map ucast ([] :: 'b word list)"
      by (auto simp: Clear_def)
    from Cons.IH [OF coh1 wfs rest this] True show ?thesis
      by simp
  next
    case False
    from operand_ids_perform [OF Cons.prems(1) wfx step False] Cons.prems(4,5)
    have "index c1 = map ucast (acc @ operand_ids x)"
      and "\<forall>i\<in>set (acc @ operand_ids x). unat i < unat (- 1 :: 'a word)"
      by auto
    from Cons.IH [OF coh1 wfs rest this] False show ?thesis
      by (cases x) simp_all
  qed
qed

lemma unat_max: "unat (max a b) = max (unat a) (unat b)"
  by (simp add: max_def word_le_nat_alt)

lemma unat_foldl_max: "unat (foldl max m ys) = foldl max (unat m) (map unat ys)"
  by (induction ys arbitrary: m) (simp_all add: unat_max)

lemma unat_max_index_accepted:
  fixes c :: "('a::len word, 'r) RowBlockContainer" and ids :: "'b::len word list"
  assumes "coherent c" and "index c = map ucast ids"
    and "\<forall>i\<in>set ids. unat i < unat (- 1 :: 'a word)"
  shows "unat (max_index c) = Max (insert 0 (unat ` set ids))"
proof -
  from assms(3) have same: "map unat (map ucast ids :: 'a word list) = map unat ids"
    by (simp add: unat_ucast_below)
  from assms(1) have "max_index c = foldl max 0 (index c)"
    by (simp add: coherent_def)
  then have "unat (max_index c) = foldl max (unat (0 :: 'a word)) (map unat (index c))"
    by (simp only: unat_foldl_max)
  also have "\<dots> = foldl max 0 (map unat ids)"
    unfolding assms(2) same by simp
  finally show ?thesis
    by (simp add: foldl_max_Max)
qed

lemma valued_operations_ids: "accepted_ids valued_operations = [1, 3, 2, 7, 4]"
  by (simp add: accepted_ids_def valued_operations_def parsed_block_def)

text \<open>Claim C9. In every state reached from a cleared container by successful operations
  on well-formed operands, \<^verbatim>\<open>index\<close> holds exactly the feature ids that the pushes since
  the last \<^verbatim>\<open>Clear\<close> handed over, each below the largest value of \<^verbatim>\<open>IndexType\<close> and
  hence converted without loss, and \<^verbatim>\<open>max_index\<close> is the largest of these ids (0 when
  there is none). For an index type of at most 64 bits \<^verbatim>\<open>NumCol()\<close> of an iterator
  holding that container is \<^verbatim>\<open>max_index + 1\<close>, without wrap-around; and a further
  successful push does not decrease \<^verbatim>\<open>max_index\<close>.\<close>

theorem max_index_running_maximum:
  fixes c :: "('a::len word, 'r::zero) RowBlockContainer"
    and xs :: "('b::len word, 'r) operation list"
  assumes "run xs (Clear c0) = Ok c" and "\<forall>x\<in>set xs. wf_operation x"
  shows "index c = map ucast (accepted_ids xs) \<and>
         (\<forall>i\<in>set (accepted_ids xs). unat i < unat (- 1 :: 'a word)) \<and>
         unat (max_index c) = Max (insert 0 (unat ` set (accepted_ids xs))) \<and>
         max_index c = Max (insert 0 (set (index c))) \<and>
         (LENGTH('a) \<le> 64 \<longrightarrow>
            (\<forall>it :: ('a word, 'r) BasicRowIter.
               m_data it = c \<longrightarrow> NumCol it = unat (max_index c) + 1)) \<and>
         (\<forall>(x :: ('b word, 'r) operation) c'.
            wf_operation x \<and> x \<noteq> OpClear \<and> perform x c = Ok c' \<longrightarrow>
              max_index c \<le> max_index c')"
proof -
  from assms have coh: "coherent c"
    by (rule coherent_reachable)
  have "index (Clear c0) = map ucast ([] :: 'b word list)"
    by (simp add: Clear_def)
  from accepted_ids_run [OF coherent_Clear assms(2,1) this]
  have ids: "index c = map ucast (accepted_ids xs)"
    and valid: "\<forall>i\<in>set (accepted_ids xs). unat i < unat (- 1 :: 'a word)"
    by (simp_all add: accepted_ids_def)
  from coh ids valid
  have nat: "unat (max_index c) = Max (insert 0 (unat ` set (accepted_ids xs)))"
    by (rule unat_max_index_accepted)
  from coh have mx: "max_index c = Max (insert 0 (set (index c)))"
    by (simp add: coherent_def foldl_max_Max)
  from coh have nc: "LENGTH('a) \<le> 64 \<longrightarrow>
            (\<forall>it :: ('a word, 'r) BasicRowIter.
               m_data it = c \<longrightarrow> NumCol it = unat (max_index c) + 1)"
    by (auto dest: NumCol_no_wrap)
  from coh have mono: "\<forall>(x :: ('b word, 'r) operation) c'.
            wf_operation x \<and> x \<noteq> OpClear \<and> perform x c = Ok c' \<longrightarrow>
              max_index c \<le> max_index c'"
    by (auto dest: max_index_perform)
  from ids valid nat mx nc mono show ?thesis
    by (intro conjI)
qed

theorem max_index_running_maximum_witness:
  "run valued_operations (Clear (empty_container :: (32 word, int) RowBlockContainer)) =
     Ok \<lparr> offset = [0, 2, 3, 5], label = [1, - 1, 1], index = [1, 3, 2, 7, 4],
          value = [5, 20, 10, 30, 40], max_index = 7 \<rparr> \<and>
   list_all wf_operation valued_operations \<and>
   accepted_ids valued_operations = [1, 3, 2, 7, 4] \<and>
   [1, 3, 2, 7, 4 :: 32 word] = map ucast [1, 3, 2, 7, 4 :: 64 word] \<and>
   unat (7 :: 32 word) = Max (insert 0 (unat ` set [1, 3, 2, 7, 4 :: 64 word])) \<and>
   Max (insert 0 (set [1, 3, 2, 7, 4 :: 32 word])) = 7 \<and>
   NumCol \<lparr> m_at_head = True,
            m_row = \<lparr> blk_size = 3, blk_offset = [0, 2, 3, 5], blk_label = [1 :: int, - 1, 1],
                      blk_index = [1, 3, 2, 7, 4 :: 32 word],
                      blk_value = Some [5, 20, 10, 30, 40] \<rparr>,
            m_data = \<lparr> offset = [0, 2, 3, 5], label = [1, - 1, 1], index = [1, 3, 2, 7, 4],
                       value = [5, 20, 10, 30, 40], max_index = 7 \<rparr> \<rparr> = 8 \<and>
   perform (OpPushRow \<lparr> row_label = 1 :: int, row_length = 1, row_index = [9 :: 64 word],
                        row_value = Some [50] \<rparr>)
     \<lparr> offset = [0, 2, 3, 5], label = [1, - 1, 1], index = [1, 3, 2, 7, 4 :: 32 word],
       value = [5, 20, 10, 30, 40], max_index = 7 \<rparr> =
     Ok \<lparr> offset = [0, 2, 3, 5, 6], label = [1, - 1, 1, 1], index = [1, 3, 2, 7, 4, 9],
          value = [5, 20, 10, 30, 40, 50], max_index = 9 \<rparr> \<and>
   (7 :: 32 word) \<le> 9"
proof -
  let ?c = "\<lparr> offset = [0, 2, 3, 5], label = [1 :: int, - 1, 1], index = [1, 3, 2, 7, 4 :: 32 word],
          value = [5, 20, 10, 30, 40], max_index = 7 \<rparr>"
  let ?it = "\<lparr> m_at_head = True,
            m_row = \<lparr> blk_size = 3, blk_offset = [0, 2, 3, 5], blk_label = [1 :: int, - 1, 1],
                      blk_index = [1, 3, 2, 7, 4 :: 32 word],
                      blk_value = Some [5, 20, 10, 30, 40] \<rparr>,
            m_data = ?c \<rparr>"
  let ?x = "OpPushRow \<lparr> row_label = 1 :: int, row_length = 1, row_index = [9 :: 64 word],
                        row_value = Some [50] \<rparr>"
  let ?c' = "\<lparr> offset = [0, 2, 3, 5, 6], label = [1 :: int, - 1, 1, 1],
               index = [1, 3, 2, 7, 4, 9 :: 32 word],
               value = [5, 20, 10, 30, 40, 50], max_index = 9 \<rparr>"
  from valued_operations_wf have wf: "\<forall>x\<in>set valued_operations. wf_operation x"
    by (simp add: list_all_iff)
  note th = max_index_running_maximum [OF valued_operations_run wf]
  from th have "index ?c = map ucast (accepted_ids valued_operations)"
    by (rule conjunct1)
  then have i: "[1, 3, 2, 7, 4 :: 32 word] = map ucast [1, 3, 2, 7, 4 :: 64 word]"
    by (simp only: valued_operations_ids RowBlockContainer.select_convs)
  from th have "unat (max_index ?c) = Max (insert 0 (unat ` set (accepted_ids valued_operations)))"
    by (rule conjunct2 [THEN conjunct2, THEN conjunct1])
  then have n: "unat (7 :: 32 word) = Max (insert 0 (unat ` set [1, 3, 2, 7, 4 :: 64 word]))"
    by (simp only: valued_operations_ids RowBlockContainer.select_convs)
  from th have "max_index ?c = Max (insert 0 (set (index ?c)))"
    by (rule conjunct2 [THEN conjunct2, THEN conjunct2, THEN conjunct1])
  then have a: "Max (insert 0 (set [1, 3, 2, 7, 4 :: 32 word])) = 7"
    by simp
  from th have "LENGTH(32) \<le> 64 \<longrightarrow>
      (\<forall>it :: (32 word, int) BasicRowIter. m_data it = ?c \<longrightarrow> NumCol it = unat (max_index ?c) + 1)"
    by (rule conjunct2 [THEN conjunct2, THEN conjunct2, THEN conjunct2, THEN conjunct1])
  then have "m_data ?it = ?c \<longrightarrow> NumCol ?it = unat (max_index ?c) + 1"
    by simp
  then have b: "NumCol ?it = 8"
    by simp
  have p: "perform ?x ?c = Ok ?c'"
    by (simp add: Push_row_def unat_all_ones)
  from th have "\<forall>(x :: (64 word, int) operation) c'.
            wf_operation x \<and> x \<noteq> OpClear \<and> perform x ?c = Ok c' \<longrightarrow>
              max_index ?c \<le> max_index c'"
    by (rule conjunct2 [THEN conjunct2, THEN conjunct2, THEN conjunct2, THEN conjunct2])
  then have "wf_operation ?x \<and> ?x \<noteq> OpClear \<and> perform ?x ?c = Ok ?c' \<longrightarrow>
              max_index ?c \<le> max_index ?c'"
    by blast
  with p have c: "(7 :: 32 word) \<le> 9"
    by (simp add: wf_row_def)
  from valued_operations_run valued_operations_wf valued_operations_ids i n a b p c show ?thesis
    by (intro conjI)
qed

lemma value_length_perform:
  fixes c :: "('a::len word, 'r::zero) RowBlockContainer"
  assumes coh: "coherent c" and wf: "wf_operation x" and ok: "perform x c = Ok c'"
  shows "(has_values x \<noteq> Some False \<longrightarrow> length (value c) = length (index c) \<longrightarrow>
            length (value c') = length (index c')) \<and>
         (has_values x \<noteq> Some True \<longrightarrow> length (value c) = 0 \<longrightarrow> length (value c') = 0)"
proof (cases x)
  case OpClear
  with ok show ?thesis by (auto simp: Clear_def)
next
  case (OpPushRow row)
  with ok have ok': "Push_row row c = Ok c'" by simp
  from OpPushRow wf have "wf_row row" by simp
  then have "row_length row \<le> length (row_index row)"
    and "\<And>vs. row_value row = Some vs \<Longrightarrow> row_length row \<le> length vs"
    by (simp_all add: wf_row_def)
  with ok' OpPushRow show ?thesis
    by (auto simp: Push_row_Ok [OF Push_row_Ok_valid [OF ok']])
next
  case (OpPushBlock batch)
  with ok wf have ok': "Push_block batch c = Ok c'" and wfb: "wf_block batch" by simp_all
  from coh have "length (label c) + 1 = length (offset c)"
    and "last (offset c) = length (index c)"
    by (simp_all add: coherent_def)
  note fields = Push_block_Ok [OF this wfb ok']
  from wfb have "blk_offset batch ! blk_size batch \<le> length (blk_index batch)"
    by (simp add: wf_block_def)
  with fields OpPushBlock show ?thesis
    by (auto split: option.splits)
qed

lemma value_length_run:
  fixes c :: "('a::len word, 'r::zero) RowBlockContainer"
  assumes "coherent c" and "\<forall>x\<in>set xs. wf_operation x" and "run xs c = Ok c'"
  shows "((\<forall>x\<in>set xs. has_values x \<noteq> Some False) \<longrightarrow> length (value c) = length (index c) \<longrightarrow>
            length (value c') = length (index c')) \<and>
         ((\<forall>x\<in>set xs. has_values x \<noteq> Some True) \<longrightarrow> length (value c) = 0 \<longrightarrow>
            length (value c') = 0)"
  using assms
proof (induction xs arbitrary: c)
  case Nil
  then show ?case by simp
next
  case (Cons x xs)
  from Cons.prems(3) obtain c1 where step: "perform x c = Ok c1" and rest: "run xs c1 = Ok c'"
    by (auto split: result.splits)
  from Cons.prems(2) have wfx: "wf_operation x" and wfs: "\<forall>y\<in>set xs. wf_operation y"
    by simp_all
  from Cons.prems(1) wfx step have coh1: "coherent c1"
    by (rule coherent_perform)
  from value_length_perform [OF Cons.prems(1) wfx step] Cons.IH [OF coh1 wfs rest]
  show ?case
    by simp
qed

text \<open>Claim C5, as amended. After every sequence of successful \<^verbatim>\<open>Clear\<close> and \<^verbatim>\<open>Push\<close>
  calls with well-formed operands from a cleared container, \<^verbatim>\<open>label.size() + 1 ==
  offset.size()\<close> and \<^verbatim>\<open>offset.back() == index.size()\<close>. If every pushed row and block
  carried values then \<^verbatim>\<open>value.size() == index.size()\<close>; if none did then
  \<^verbatim>\<open>value.size() == 0\<close>; in both cases \<^verbatim>\<open>GetBlock\<close> passes its checks.\<close>

theorem container_invariants:
  fixes c :: "('a::len word, 'r::zero) RowBlockContainer"
  assumes "run xs (Clear c0) = Ok c" and "\<forall>x\<in>set xs. wf_operation x"
  shows "length (label c) + 1 = length (offset c) \<and>
         last (offset c) = length (index c) \<and>
         ((\<forall>x\<in>set xs. has_values x \<noteq> Some False) \<longrightarrow> length (value c) = length (index c)) \<and>
         ((\<forall>x\<in>set xs. has_values x \<noteq> Some True) \<longrightarrow> length (value c) = 0) \<and>
         ((\<forall>x\<in>set xs. has_values x \<noteq> Some False) \<or> (\<forall>x\<in>set xs. has_values x \<noteq> Some True) \<longrightarrow>
            (\<exists>b. GetBlock c = Inr b))"
proof -
  from assms have coh: "coherent c"
    by (rule coherent_reachable)
  then have a: "length (label c) + 1 = length (offset c)"
    and b: "last (offset c) = length (index c)"
    by (simp_all add: coherent_def)
  from value_length_run [OF coherent_Clear assms(2,1)]
  have v: "(\<forall>x\<in>set xs. has_values x \<noteq> Some False) \<longrightarrow> length (value c) = length (index c)"
    and p: "(\<forall>x\<in>set xs. has_values x \<noteq> Some True) \<longrightarrow> length (value c) = 0"
    by (simp_all add: Clear_def)
  from a b v p have "(\<forall>x\<in>set xs. has_values x \<noteq> Some False) \<or>
      (\<forall>x\<in>set xs. has_values x \<noteq> Some True) \<longrightarrow> (\<exists>b. GetBlock c = Inr b)"
    by (auto simp: GetBlock_def)
  with a b v p show ?thesis
    by (intro conjI)
qed

theorem container_invariants_witness:
  "run valued_operations (Clear (empty_container :: (32 word, int) RowBlockContainer)) =
     Ok \<lparr> offset = [0, 2, 3, 5], label = [1, - 1, 1], index = [1, 3, 2, 7, 4],
          value = [5, 20, 10, 30, 40], max_index = 7 \<rparr> \<and>
   list_all wf_operation valued_operations \<and>
   list_all (\<lambda>x. has_values x \<noteq> Some False) valued_operations \<and>
   length [1 :: int, - 1, 1] + 1 = length [0, 2, 3, 5 :: nat] \<and>
   last [0, 2, 3, 5] = length [1, 3, 2, 7, 4 :: 32 word] \<and>
   length [5, 20, 10, 30, 40 :: int] = length [1, 3, 2, 7, 4 :: 32 word] \<and>
   run plain_operations (Clear (empty_container :: (32 word, int) RowBlockContainer)) =
     Ok \<lparr> offset = [0, 2], label = [- 1], index = [2, 6], value = [], max_index = 6 \<rparr> \<and>
   list_all wf_operation plain_operations \<and>
   list_all (\<lambda>x. has_values x \<noteq> Some True) plain_operations \<and>
   length ([] :: int list) = 0"
proof -
  from valued_operations_wf have wf: "\<forall>x\<in>set valued_operations. wf_operation x"
    by (simp add: list_all_iff)
  have hv: "list_all (\<lambda>x. has_values x \<noteq> Some False) valued_operations"
    by (simp add: valued_operations_def parsed_block_def)
  from plain_operations_wf have wf': "\<forall>x\<in>set plain_operations. wf_operation x"
    by (simp add: list_all_iff)
  have hp: "list_all (\<lambda>x. has_values x \<noteq> Some True) plain_operations"
    by (simp add: plain_operations_def)
  from container_invariants [OF valued_operations_run wf] hv
  have a: "length [1 :: int, - 1, 1] + 1 = length [0, 2, 3, 5 :: nat] \<and>
   last [0, 2, 3, 5] = length [1, 3, 2, 7, 4 :: 32 word] \<and>
   length [5, 20, 10, 30, 40 :: int] = length [1, 3, 2, 7, 4 :: 32 word]"
    by (simp add: list_all_iff)
  from container_invariants [OF plain_operations_run wf'] hp
  have b: "length ([] :: int list) = 0"
    by (simp add: list_all_iff)
  from valued_operations_run valued_operations_wf hv a plain_operations_run plain_operations_wf hp b
  show ?thesis
    by (intro conjI) simp_all
qed

text \<open>Claim C5 as stated fails when the pushed rows individually carry or omit values:
  after a row with one valued feature and a row with one feature without values,
  \<^verbatim>\<open>value\<close> has one element and \<^verbatim>\<open>index\<close> two, and \<^verbatim>\<open>GetBlock\<close> fails its third check.\<close>

theorem mixed_pushes_break_value_length:
  "run [OpPushRow \<lparr> row_label = 1 :: int, row_length = 1, row_index = [2 :: 64 word],
                     row_value = Some [5] \<rparr>,
        OpPushRow \<lparr> row_label = 1, row_length = 1, row_index = [3], row_value = None \<rparr>]
     (Clear (empty_container :: (32 word, int) RowBlockContainer)) =
     Ok \<lparr> offset = [0, 1, 2], label = [1, 1], index = [2, 3], value = [5], max_index = 3 \<rparr> \<and>
   \<not> (length (value \<lparr> offset = [0, 1, 2], label = [1 :: int, 1], index = [2, 3 :: 32 word],
                       value = [5], max_index = 3 \<rparr>) =
       length (index \<lparr> offset = [0, 1, 2], label = [1 :: int, 1], index = [2, 3 :: 32 word],
                       value = [5], max_index = 3 \<rparr>) \<or>
      length (value \<lparr> offset = [0, 1, 2], label = [1 :: int, 1], index = [2, 3 :: 32 word],
                       value = [5], max_index = 3 \<rparr>) = 0) \<and>
   GetBlock \<lparr> offset = [0, 1, 2], label = [1 :: int, 1], index = [2, 3 :: 32 word],
              value = [5], max_index = 3 \<rparr> = Inl InvariantViolation"
  by (simp add: empty_container_def Clear_def Push_row_def unat_all_ones GetBlock_def)

subsection \<open>Index overflow\<close>

lemma Push_block_Fail:
  fixes c :: "('a::len word, 'r::zero) RowBlockContainer"
  assumes lab: "length (label c) + 1 = length (offset c)"
    and idx: "last (offset c) = length (index c)"
    and wf: "wf_block batch"
    and bad: "\<exists>x\<in>set (take (blk_offset batch ! blk_size batch) (blk_index batch)).
                unat (- 1 :: 'a word) \<le> unat x"
  shows "\<exists>c'. Push_block batch c = Fail IndexOverflow c'"
proof -
  let ?n = "blk_offset batch ! blk_size batch"
  let ?c3 = "c\<lparr> label := label c @ take (blk_size batch) (blk_label batch),
                 index := index c @ replicate ?n 0 \<rparr>"
  from wf have "?n \<le> length (blk_index batch)"
    by (simp add: wf_block_def)
  then have room: "length (index c) + length (take ?n (blk_index batch)) \<le> length (index ?c3)"
    by simp
  from Push_block_indices_Fail [OF bad room] show ?thesis
    by (auto simp: Push_block_coherent [OF lab idx wf])
qed

lemma Push_row_indices_Fail_state:
  fixes c :: "('a::len word, 'r) RowBlockContainer"
  assumes "\<exists>x\<in>set xs. unat (- 1 :: 'a word) \<le> unat x"
  shows "\<exists>c'. Push_row_indices xs c = Fail IndexOverflow c' \<and>
              offset c' = offset c \<and> value c' = value c \<and> label c' = label c \<and>
              index c' = index c @
                map ucast (takeWhile (\<lambda>x. unat x < unat (- 1 :: 'a word)) xs) \<and>
              max_index c' = foldl max (max_index c)
                (map ucast (takeWhile (\<lambda>x. unat x < unat (- 1 :: 'a word)) xs))"
  using assms
proof (induction xs arbitrary: c)
  case Nil
  then show ?case by simp
next
  case (Cons x xs)
  show ?case
  proof (cases "unat x < unat (- 1 :: 'a word)")
    case True
    with Cons.prems have "\<exists>y\<in>set xs. unat (- 1 :: 'a word) \<le> unat y"
      by auto
    from Cons.IH [OF this, of "c\<lparr> index := index c @ [ucast x],
                                  max_index := max (max_index c) (ucast x) \<rparr>"] True
    show ?thesis
      by simp
  next
    case False
    then show ?thesis by simp
  qed
qed

lemma Push_row_Fail_state:
  fixes c :: "('a::len word, 'r) RowBlockContainer"
  assumes "\<exists>x\<in>set (take (row_length row) (row_index row)). unat (- 1 :: 'a word) \<le> unat x"
  shows "\<exists>c'. Push_row row c = Fail IndexOverflow c' \<and>
              offset c' = offset c \<and> value c' = value c \<and>
              label c' = label c @ [row_label row] \<and>
              index c' = index c @
                map ucast (takeWhile (\<lambda>x. unat x < unat (- 1 :: 'a word))
                             (take (row_length row) (row_index row))) \<and>
              max_index c' = foldl max (max_index c)
                (map ucast (takeWhile (\<lambda>x. unat x < unat (- 1 :: 'a word))
                              (take (row_length row) (row_index row))))"
proof -
  from Push_row_indices_Fail_state [OF assms, of "c\<lparr> label := label c @ [row_label row] \<rparr>"]
  obtain c' where "Push_row_indices (take (row_length row) (row_index row))
                     (c\<lparr> label := label c @ [row_label row] \<rparr>) = Fail IndexOverflow c'"
    and "offset c' = offset c" and "value c' = value c" and "label c' = label c @ [row_label row]"
    and "index c' = index c @
                map ucast (takeWhile (\<lambda>x. unat x < unat (- 1 :: 'a word))
                             (take (row_length row) (row_index row)))"
    and "max_index c' = foldl max (max_index c)
                (map ucast (takeWhile (\<lambda>x. unat x < unat (- 1 :: 'a word))
                              (take (row_length row) (row_index row))))"
    by auto
  then show ?thesis
    by (simp add: Push_row_def)
qed

lemma Push_block_indices_Fail_state:
  fixes c :: "('a::len word, 'r) RowBlockContainer"
  assumes "\<exists>x\<in>set xs. unat (- 1 :: 'a word) \<le> unat x"
    and "p + length xs \<le> length (index c)"
  shows "\<exists>c'. Push_block_indices xs p c = Fail IndexOverflow c' \<and>
              offset c' = offset c \<and> value c' = value c \<and> label c' = label c \<and>
              index c' = take p (index c) @
                map ucast (takeWhile (\<lambda>x. unat x < unat (- 1 :: 'a word)) xs) @
                drop (p + length (takeWhile (\<lambda>x. unat x < unat (- 1 :: 'a word)) xs)) (index c) \<and>
              max_index c' = foldl max (max_index c)
                (map ucast (takeWhile (\<lambda>x. unat x < unat (- 1 :: 'a word)) xs))"
  using assms
proof (induction xs arbitrary: p c)
  case Nil
  then show ?case by simp
next
  case (Cons x xs)
  show ?case
  proof (cases "unat x < unat (- 1 :: 'a word)")
    case True
    let ?c = "c\<lparr> index := (index c)[p := ucast x], max_index := max (max_index c) (ucast x) \<rparr>"
    let ?ok = "takeWhile (\<lambda>x. unat x < unat (- 1 :: 'a word)) xs"
    from Cons.prems have p: "p < length (index c)"
      by simp
    from Cons.prems True have "\<exists>y\<in>set xs. unat (- 1 :: 'a word) \<le> unat y"
      and "Suc p + length xs \<le> length (index ?c)"
      by auto
    from Cons.IH [OF this]
    obtain c' where f: "Push_block_indices xs (Suc p) ?c = Fail IndexOverflow c'"
      and o: "offset c' = offset c" "value c' = value c" "label c' = label c"
      and i: "index c' = take (Suc p) (index ?c) @ map ucast ?ok @
                drop (Suc p + length ?ok) (index ?c)"
      and m: "max_index c' = foldl max (max_index ?c) (map ucast ?ok)"
      by auto
    have "take (Suc p) (index ?c) = take p (index c) @ [ucast x]"
      using p by (simp add: take_Suc_conv_app_nth)
    moreover have "drop (Suc p + length ?ok) (index ?c) = drop (Suc p + length ?ok) (index c)"
      by simp
    ultimately have "index c' = take p (index c) @ map ucast (x # ?ok) @
                drop (p + length (x # ?ok)) (index c)"
      using i by simp
    with f o m True p show ?thesis
      by simp
  next
    case False
    then show ?thesis by simp
  qed
qed

lemma Push_block_Fail_state:
  fixes c :: "('a::len word, 'r::zero) RowBlockContainer"
  assumes lab: "length (label c) + 1 = length (offset c)"
    and idx: "last (offset c) = length (index c)"
    and wf: "wf_block batch"
    and bad: "\<exists>x\<in>set (take (blk_offset batch ! blk_size batch) (blk_index batch)).
                unat (- 1 :: 'a word) \<le> unat x"
  shows "\<exists>c'. Push_block batch c = Fail IndexOverflow c' \<and>
              offset c' = offset c \<and> value c' = value c \<and>
              label c' = label c @ take (blk_size batch) (blk_label batch) \<and>
              index c' = index c @
                map ucast (takeWhile (\<lambda>x. unat x < unat (- 1 :: 'a word))
                             (take (blk_offset batch ! blk_size batch) (blk_index batch))) @
                replicate (blk_offset batch ! blk_size batch -
                             length (takeWhile (\<lambda>x. unat x < unat (- 1 :: 'a word))
                               (take (blk_offset batch ! blk_size batch) (blk_index batch)))) 0 \<and>
              max_index c' = foldl max (max_index c)
                (map ucast (takeWhile (\<lambda>x. unat x < unat (- 1 :: 'a word))
                              (take (blk_offset batch ! blk_size batch) (blk_index batch))))"
proof -
  let ?n = "blk_offset batch ! blk_size batch"
  let ?ids = "take ?n (blk_index batch)"
  let ?ok = "takeWhile (\<lambda>x. unat x < unat (- 1 :: 'a word)) ?ids"
  let ?c3 = "c\<lparr> label := label c @ take (blk_size batch) (blk_label batch),
                 index := index c @ replicate ?n 0 \<rparr>"
  from wf have "?n \<le> length (blk_index batch)"
    by (simp add: wf_block_def)
  then have room: "length (index c) + length ?ids \<le> length (index ?c3)"
    by simp
  from Push_block_indices_Fail_state [OF bad room]
  obtain c' where f: "Push_block_indices ?ids (length (index c)) ?c3 = Fail IndexOverflow c'"
    and o: "offset c' = offset c" "value c' = value c"
      "label c' = label c @ take (blk_size batch) (blk_label batch)"
    and i: "index c' = take (length (index c)) (index ?c3) @ map ucast ?ok @
              drop (length (index c) + length ?ok) (index ?c3)"
    and m: "max_index c' = foldl max (max_index c) (map ucast ?ok)"
    by auto
  from i have "index c' = index c @ map ucast ?ok @ replicate (?n - length ?ok) 0"
    by simp
  with f o m show ?thesis
    by (simp add: Push_block_coherent [OF lab idx wf])
qed

text \<open>Claim C3, as amended. A single-row push whose row contains a feature id at or above
  the largest value of \<^verbatim>\<open>IndexType\<close> fails with the overflow condition and does not
  restore the container: \<^verbatim>\<open>offset\<close> and \<^verbatim>\<open>value\<close> are as before, the label of the row has
  been appended, \<^verbatim>\<open>index\<close> has grown by exactly the ids before the first offending one,
  and \<^verbatim>\<open>max_index\<close> is the running maximum over these. A single-row push whose ids are
  all below that value succeeds, with the state spelled out. A bulk push of a well-formed
  block with such an id into a container with \<^verbatim>\<open>label.size() + 1 == offset.size()\<close> and
  \<^verbatim>\<open>offset.back() == index.size()\<close> fails with the same condition: \<^verbatim>\<open>offset\<close> and
  \<^verbatim>\<open>value\<close> are as before, all labels of the block have been appended, and \<^verbatim>\<open>index\<close>
  has grown by the ids before the first offending one followed by zeros up to the size
  of the block.\<close>

theorem Push_index_overflow:
  fixes c :: "('a::len word, 'r::zero) RowBlockContainer"
    and row :: "('b::len word, 'r) Row" and batch :: "('b word, 'r) RowBlock"
  shows "((\<exists>x\<in>set (take (row_length row) (row_index row)). unat (- 1 :: 'a word) \<le> unat x) \<longrightarrow>
            (\<exists>c'. Push_row row c = Fail IndexOverflow c' \<and>
                  offset c' = offset c \<and> value c' = value c \<and>
                  label c' = label c @ [row_label row] \<and>
                  index c' = index c @
                    map ucast (takeWhile (\<lambda>x. unat x < unat (- 1 :: 'a word))
                                 (take (row_length row) (row_index row))) \<and>
                  max_index c' = foldl max (max_index c)
                    (map ucast (takeWhile (\<lambda>x. unat x < unat (- 1 :: 'a word))
                                  (take (row_length row) (row_index row)))))) \<and>
         ((\<forall>x\<in>set (take (row_length row) (row_index row)). unat x < unat (- 1 :: 'a word)) \<longrightarrow>
            Push_row row c =
              Ok (c\<lparr> offset := offset c @
                       [length (index c) + length (take (row_length row) (row_index row))],
                     label := label c @ [row_label row],
                     index := index c @ map ucast (take (row_length row) (row_index row)),
                     value := value c @ (case row_value row of None \<Rightarrow> []
                                         | Some vs \<Rightarrow> take (row_length row) vs),
                     max_index := foldl max (max_index c)
                                    (map ucast (take (row_length row) (row_index row))) \<rparr>)) \<and>
         (length (label c) + 1 = length (offset c) \<and> last (offset c) = length (index c) \<and>
          wf_block batch \<and>
          (\<exists>x\<in>set (take (blk_offset batch ! blk_size batch) (blk_index batch)).
             unat (- 1 :: 'a word) \<le> unat x) \<longrightarrow>
            (\<exists>c'. Push_block batch c = Fail IndexOverflow c' \<and>
                  offset c' = offset c \<and> value c' = value c \<and>
                  label c' = label c @ take (blk_size batch) (blk_label batch) \<and>
                  index c' = index c @
                    map ucast (takeWhile (\<lambda>x. unat x < unat (- 1 :: 'a word))
                                 (take (blk_offset batch ! blk_size batch) (blk_index batch))) @
                    replicate (blk_offset batch ! blk_size batch -
                                 length (takeWhile (\<lambda>x. unat x < unat (- 1 :: 'a word))
                                   (take (blk_offset batch ! blk_size batch) (blk_index batch)))) 0 \<and>
                  max_index c' = foldl max (max_index c)
                    (map ucast (takeWhile (\<lambda>x. unat x < unat (- 1 :: 'a word))
                                  (take (blk_offset batch ! blk_size batch) (blk_index batch))))))"
proof (intro conjI impI)
  assume "\<exists>x\<in>set (take (row_length row) (row_index row)). unat (- 1 :: 'a word) \<le> unat x"
  then show "\<exists>c'. Push_row row c = Fail IndexOverflow c' \<and>
                  offset c' = offset c \<and> value c' = value c \<and>
                  label c' = label c @ [row_label row] \<and>
                  index c' = index c @
                    map ucast (takeWhile (\<lambda>x. unat x < unat (- 1 :: 'a word))
                                 (take (row_length row) (row_index row))) \<and>
                  max_index c' = foldl max (max_index c)
                    (map ucast (takeWhile (\<lambda>x. unat x < unat (- 1 :: 'a word))
                                  (take (row_length row) (row_index row))))"
    by (rule Push_row_Fail_state)
next
  assume "\<forall>x\<in>set (take (row_length row) (row_index row)). unat x < unat (- 1 :: 'a word)"
  then show "Push_row row c =
              Ok (c\<lparr> offset := offset c @
                       [length (index c) + length (take (row_length row) (row_index row))],
                     label := label c @ [row_label row],
                     index := index c @ map ucast (take (row_length row) (row_index row)),
                     value := value c @ (case row_value row of None \<Rightarrow> []
                                         | Some vs \<Rightarrow> take (row_length row) vs),
                     max_index := foldl max (max_index c)
                                    (map ucast (take (row_length row) (row_index row))) \<rparr>)"
    by (rule Push_row_Ok)
next
  assume a: "length (label c) + 1 = length (offset c) \<and> last (offset c) = length (index c) \<and>
          wf_block batch \<and>
          (\<exists>x\<in>set (take (blk_offset batch ! blk_size batch) (blk_index batch)).
             unat (- 1 :: 'a word) \<le> unat x)"
  from a have lab: "length (label c) + 1 = length (offset c)"
    and idx: "last (offset c) = length (index c)" and wf: "wf_block batch"
    and bad: "\<exists>x\<in>set (take (blk_offset batch ! blk_size batch) (blk_index batch)).
             unat (- 1 :: 'a word) \<le> unat x"
    by simp_all
  show "\<exists>c'. Push_block batch c = Fail IndexOverflow c' \<and>
                  offset c' = offset c \<and> value c' = value c \<and>
                  label c' = label c @ take (blk_size batch) (blk_label batch) \<and>
                  index c' = index c @
                    map ucast (takeWhile (\<lambda>x. unat x < unat (- 1 :: 'a word))
                                 (take (blk_offset batch ! blk_size batch) (blk_index batch))) @
                    replicate (blk_offset batch ! blk_size batch -
                                 length (takeWhile (\<lambda>x. unat x < unat (- 1 :: 'a word))
                                   (take (blk_offset batch ! blk_size batch) (blk_index batch)))) 0 \<and>
                  max_index c' = foldl max (max_index c)
                    (map ucast (takeWhile (\<lambda>x. unat x < unat (- 1 :: 'a word))
                                  (take (blk_offset batch ! blk_size batch) (blk_index batch))))"
    by (rule Push_block_Fail_state [OF lab idx wf bad])
qed

theorem Push_index_overflow_witness:
  "(\<exists>c'. Push_row \<lparr> row_label = 1 :: int, row_length = 3, row_index = [4, 0xFFFFFFFF, 9 :: 64 word],
                     row_value = Some [10, 20, 30] \<rparr>
            \<lparr> offset = [0, 1], label = [- 1], index = [2 :: 32 word], value = [50],
              max_index = 2 \<rparr> = Fail IndexOverflow c' \<and>
         offset c' = [0, 1] \<and> value c' = [50] \<and> label c' = [- 1, 1] \<and>
         index c' = [2, 4] \<and> max_index c' = 4) \<and>
   Push_row \<lparr> row_label = 1 :: int, row_length = 2, row_index = [0, 0xFFFFFFFE :: 64 word],
              row_value = None \<rparr>
     (empty_container :: (32 word, int) RowBlockContainer) =
     Ok \<lparr> offset = [0, 2], label = [1], index = [0, 0xFFFFFFFE], value = [],
          max_index = 0xFFFFFFFE \<rparr> \<and>
   (\<exists>c'. Push_block \<lparr> blk_size = 1, blk_offset = [0, 3], blk_label = [1 :: int],
                       blk_index = [6, 0x100000000, 7 :: 64 word], blk_value = None \<rparr>
            \<lparr> offset = [0, 1], label = [- 1], index = [2 :: 32 word], value = [],
              max_index = 2 \<rparr> = Fail IndexOverflow c' \<and>
         offset c' = [0, 1] \<and> value c' = [] \<and> label c' = [- 1, 1] \<and>
         index c' = [2, 6, 0, 0] \<and> max_index c' = 6)"
proof -
  let ?bad = "\<lparr> row_label = 1 :: int, row_length = 3, row_index = [4, 0xFFFFFFFF, 9 :: 64 word],
                     row_value = Some [10, 20, 30] \<rparr>"
  let ?good = "\<lparr> row_label = 1 :: int, row_length = 2, row_index = [0, 0xFFFFFFFE :: 64 word],
                     row_value = None \<rparr>"
  let ?blk = "\<lparr> blk_size = 1, blk_offset = [0, 3], blk_label = [1 :: int],
                       blk_index = [6, 0x100000000, 7 :: 64 word], blk_value = None \<rparr>"
  let ?s = "\<lparr> offset = [0, 1], label = [- 1 :: int], index = [2 :: 32 word], value = [50],
              max_index = 2 \<rparr>"
  let ?t = "\<lparr> offset = [0, 1], label = [- 1 :: int], index = [2 :: 32 word], value = [],
              max_index = 2 \<rparr>"
  let ?e = "empty_container :: (32 word, int) RowBlockContainer"
  have a: "\<exists>x\<in>set (take (row_length ?bad) (row_index ?bad)). unat (- 1 :: 32 word) \<le> unat x"
    by (simp add: unat_all_ones)
  have b: "\<forall>x\<in>set (take (row_length ?good) (row_index ?good)). unat x < unat (- 1 :: 32 word)"
    by (simp add: unat_all_ones)
  have c: "length (label ?t) + 1 = length (offset ?t) \<and> last (offset ?t) = length (index ?t) \<and>
          wf_block ?blk \<and>
          (\<exists>x\<in>set (take (blk_offset ?blk ! blk_size ?blk) (blk_index ?blk)).
             unat (- 1 :: 32 word) \<le> unat x)"
    by (simp add: wf_block_def unat_all_ones)
  from Push_index_overflow [of ?bad ?s ?blk, THEN conjunct1, THEN mp, OF a]
  have 1: "\<exists>c'. Push_row ?bad ?s = Fail IndexOverflow c' \<and>
         offset c' = [0, 1] \<and> value c' = [50] \<and> label c' = [- 1, 1] \<and>
         index c' = [2, 4] \<and> max_index c' = 4"
    by (simp add: unat_all_ones)
  from Push_index_overflow [of ?good ?e ?blk, THEN conjunct2, THEN conjunct1, THEN mp, OF b]
  have 2: "Push_row ?good ?e =
     Ok \<lparr> offset = [0, 2], label = [1], index = [0, 0xFFFFFFFE], value = [],
          max_index = 0xFFFFFFFE \<rparr>"
    by (simp add: empty_container_def)
  from Push_index_overflow [of ?bad ?t ?blk, THEN conjunct2, THEN conjunct2, THEN mp, OF c]
  have 3: "\<exists>c'. Push_block ?blk ?t = Fail IndexOverflow c' \<and>
         offset c' = [0, 1] \<and> value c' = [] \<and> label c' = [- 1, 1] \<and>
         index c' = [2, 6, 0, 0] \<and> max_index c' = 6"
    by (simp add: unat_all_ones replicate_numeral_eq)
  from 1 2 3 show ?thesis
    by (intro conjI)
qed

text \<open>Claim C3 as stated fails: the push of a row with the ids 5 and \<open>2^32 - 1\<close> into an
  empty container of 32-bit indices fails, and leaves a container that holds the label
  and the id 5 and has \<^verbatim>\<open>max_index\<close> 5.\<close>

theorem Push_row_overflow_partial_append:
  "Push_row \<lparr> row_label = 1 :: int, row_length = 2, row_index = [5, 0xFFFFFFFF :: 64 word],
              row_value = None \<rparr>
     (empty_container :: (32 word, int) RowBlockContainer) =
     Fail IndexOverflow
       \<lparr> offset = [0], label = [1], index = [5], value = [], max_index = 5 \<rparr> \<and>
   \<lparr> offset = [0], label = [1 :: int], index = [5 :: 32 word], value = [], max_index = 5 \<rparr> \<noteq>
     empty_container"
  by (simp add: Push_row_def empty_container_def unat_all_ones)

subsection \<open>Merge equivalence\<close>

lemma length_row_offsets: "length (row_offsets base rows) = length rows"
  by (induction rows arbitrary: base) simp_all

lemma row_offsets_ge: "x \<in> set (row_offsets base rows) \<Longrightarrow> base \<le> x"
  by (induction rows arbitrary: base) fastforce+

lemma sorted_row_offsets: "sorted (base # row_offsets base rows)"
proof (induction rows arbitrary: base)
  case Nil
  then show ?case by simp
next
  case (Cons r rs)
  from Cons.IH [of "base + row_length r"] show ?case
    by (auto dest: row_offsets_ge)
qed

lemma row_offsets_total:
  "(base # row_offsets base rows) ! length rows = base + sum_list (map row_length rows)"
  by (induction rows arbitrary: base) (simp_all add: add.assoc)

lemma length_row_ids:
  assumes "\<forall>r\<in>set rows. wf_row r"
  shows "length (concat (map (\<lambda>r. take (row_length r) (row_index r)) rows)) =
           sum_list (map row_length rows)"
  using assms by (induction rows) (simp_all add: wf_row_def)

lemma length_row_values:
  assumes "\<forall>r\<in>set rows. wf_row r \<and> row_value r \<noteq> None"
  shows "length (concat (map (\<lambda>r. case row_value r of None \<Rightarrow> []
                                    | Some vs \<Rightarrow> take (row_length r) vs) rows)) =
           sum_list (map row_length rows)"
  using assms by (induction rows) (auto simp: wf_row_def split: option.splits)

lemma wf_block_of_rows:
  assumes "\<forall>r\<in>set rows. wf_row r \<and> (row_value r \<noteq> None) = with_values"
  shows "wf_block (block_of_rows with_values rows)"
proof -
  from assms have wf: "\<forall>r\<in>set rows. wf_row r"
    by simp
  have "with_values \<Longrightarrow> \<forall>r\<in>set rows. wf_row r \<and> row_value r \<noteq> None"
    using assms by simp
  then show ?thesis
    by (simp add: wf_block_def block_of_rows_def length_row_offsets sorted_row_offsets
        row_offsets_total [of 0 rows, simplified] length_row_ids [OF wf] length_row_values
        del: sorted_wrt.simps)
qed

lemma Push_rows_Ok:
  fixes c :: "('a::len word, 'r) RowBlockContainer"
  assumes "\<forall>r\<in>set rows. wf_row r"
    and "\<forall>r\<in>set rows. \<forall>x\<in>set (take (row_length r) (row_index r)). unat x < unat (- 1 :: 'a word)"
  shows "Push_rows rows c =
           Ok (c\<lparr> offset := offset c @ row_offsets (length (index c)) rows,
                  label := label c @ map row_label rows,
                  index := index c @
                    map ucast (concat (map (\<lambda>r. take (row_length r) (row_index r)) rows)),
                  value := value c @
                    concat (map (\<lambda>r. case row_value r of None \<Rightarrow> []
                                      | Some vs \<Rightarrow> take (row_length r) vs) rows),
                  max_index := foldl max (max_index c)
                    (map ucast (concat (map (\<lambda>r. take (row_length r) (row_index r)) rows))) \<rparr>)"
  using assms
proof (induction rows arbitrary: c)
  case Nil
  then show ?case by simp
next
  case (Cons r rs)
  from Cons.prems have valid: "\<forall>x\<in>set (take (row_length r) (row_index r)). unat x < unat (- 1 :: 'a word)"
    and len: "row_length r \<le> length (row_index r)"
    by (simp_all add: wf_row_def)
  from Cons.prems have rest: "\<forall>r\<in>set rs. wf_row r"
    "\<forall>r\<in>set rs. \<forall>x\<in>set (take (row_length r) (row_index r)). unat x < unat (- 1 :: 'a word)"
    by simp_all
  show ?case
    using len by (simp add: Push_row_Ok [OF valid] Cons.IH [OF rest] min_absorb2)
qed

lemma Push_rows_Fail:
  fixes c :: "('a::len word, 'r) RowBlockContainer"
  assumes "\<exists>r\<in>set rows. \<exists>x\<in>set (take (row_length r) (row_index r)). unat (- 1 :: 'a word) \<le> unat x"
  shows "\<exists>c'. Push_rows rows c = Fail IndexOverflow c'"
  using assms
proof (induction rows arbitrary: c)
  case Nil
  then show ?case by simp
next
  case (Cons r rs)
  show ?case
  proof (cases "\<exists>x\<in>set (take (row_length r) (row_index r)). unat (- 1 :: 'a word) \<le> unat x")
    case True
    from Push_row_Fail [OF this, of c] show ?thesis
      by auto
  next
    case False
    then have valid: "\<forall>x\<in>set (take (row_length r) (row_index r)). unat x < unat (- 1 :: 'a word)"
      by (auto simp: not_le)
    from False Cons.prems
    have "\<exists>r\<in>set rs. \<exists>x\<in>set (take (row_length r) (row_index r)). unat (- 1 :: 'a word) \<le> unat x"
      by auto
    from Cons.IH [OF this] show ?thesis
      by (simp add: Push_row_Ok [OF valid])
  qed
qed

lemma shifted_row_offsets:
  "map (\<lambda>i. (0 # row_offsets 0 rows) ! (i + 1)) [0 ..< length rows] = row_offsets 0 rows"
proof -
  have "map (\<lambda>i. row_offsets 0 rows ! i) [0 ..< length (row_offsets 0 rows)] = row_offsets 0 rows"
    by (rule map_nth)
  then show ?thesis
    by (simp add: length_row_offsets)
qed

lemma Push_block_values_empty:
  fixes c :: "('i, 'r::zero) RowBlockContainer"
  assumes "value c = []" and "\<And>vs. blk_value batch = Some vs \<Longrightarrow> length vs = n"
  shows "Push_block_values batch 0 n c =
           Ok (c\<lparr> value := (case blk_value batch of None \<Rightarrow> [] | Some vs \<Rightarrow> vs) \<rparr>)"
proof (cases "blk_value batch")
  case None
  with assms(1) show ?thesis
    by (simp add: Push_block_values_def)
next
  case (Some vs)
  with assms(2) have len: "length vs = n"
    by simp
  then have "store_at ([] @ replicate n 0) (length ([] :: 'r list)) vs = Some ([] @ vs)"
    by (rule store_at_end)
  with Some assms(1) len show ?thesis
    by (simp add: Push_block_values_def resize_def)
qed

lemma Push_block_of_rows:
  fixes c0 :: "('a::len word, 'r::zero) RowBlockContainer"
    and rows :: "('b::len word, 'r) Row list"
  assumes uni: "\<forall>r\<in>set rows. wf_row r \<and> (row_value r \<noteq> None) = with_values"
    and valid: "\<forall>r\<in>set rows. \<forall>x\<in>set (take (row_length r) (row_index r)).
                  unat x < unat (- 1 :: 'a word)"
  shows "Push_block (block_of_rows with_values rows) (Clear c0) = Push_rows rows (Clear c0)"
proof -
  let ?b = "block_of_rows with_values rows"
  let ?c = "Clear c0"
  let ?ids = "concat (map (\<lambda>r. take (row_length r) (row_index r)) rows)"
  let ?vals = "concat (map (\<lambda>r. case row_value r of None \<Rightarrow> []
                                      | Some vs \<Rightarrow> take (row_length r) vs) rows)"
  let ?n = "sum_list (map row_length rows)"
  from uni have wf: "\<forall>r\<in>set rows. wf_row r"
    by simp
  have lab: "length (label ?c) + 1 = length (offset ?c)"
    and idx: "last (offset ?c) = length (index ?c)"
    by (simp_all add: Clear_def)
  have wfb: "wf_block ?b"
    using uni by (rule wf_block_of_rows)
  have n: "blk_offset ?b ! blk_size ?b = ?n"
    using row_offsets_total [of 0 rows] by (simp add: block_of_rows_def)
  have len: "length ?ids = ?n"
    by (rule length_row_ids [OF wf])
  have ids: "take ?n (blk_index ?b) = ?ids"
    by (simp add: block_of_rows_def len)
  have lbl: "take (blk_size ?b) (blk_label ?b) = map row_label rows"
    by (simp add: block_of_rows_def)
  let ?c3 = "?c\<lparr> label := label ?c @ map row_label rows,
                  index := index ?c @ replicate ?n 0 \<rparr>"
  have valid': "\<forall>x\<in>set ?ids. unat x < unat (- 1 :: 'a word)"
    using valid by auto
  have room: "length (index ?c) + length ?ids \<le> length (index ?c3)"
    by (simp add: len)
  let ?c4 = "?c3\<lparr> index := map ucast ?ids, max_index := foldl max 0 (map ucast ?ids) \<rparr>"
  have c4: "Push_block_indices ?ids (length (index ?c)) ?c3 = Ok ?c4"
    by (simp add: Push_block_indices_Ok [OF valid' room] len) (simp add: Clear_def)
  have vals: "\<And>vs. blk_value ?b = Some vs \<Longrightarrow> length vs = ?n"
  proof -
    fix vs
    assume "blk_value ?b = Some vs"
    then have wv: "with_values" and vs: "vs = ?vals"
      by (auto simp: block_of_rows_def split: if_splits)
    from wv uni have "\<forall>r\<in>set rows. wf_row r \<and> row_value r \<noteq> None"
      by simp
    from length_row_values [OF this] vs show "length vs = ?n"
      by simp
  qed
  have novals: "\<not> with_values \<Longrightarrow> ?vals = []"
    using uni by (auto split: option.splits)
  have c5: "Push_block_values ?b 0 ?n ?c4 = Ok (?c4\<lparr> value := ?vals \<rparr>)"
  proof -
    have "Push_block_values ?b 0 ?n ?c4 =
            Ok (?c4\<lparr> value := (case blk_value ?b of None \<Rightarrow> [] | Some vs \<Rightarrow> vs) \<rparr>)"
    proof (rule Push_block_values_empty)
      show "value ?c4 = []"
        by (simp add: Clear_def)
      show "\<And>vs. blk_value ?b = Some vs \<Longrightarrow> length vs = ?n"
        by (rule vals)
    qed
    then show ?thesis
      using novals by (simp add: block_of_rows_def)
  qed
  have "0 + 1 = length (offset (?c4\<lparr> value := ?vals \<rparr>))"
    by (simp add: Clear_def)
  from Push_block_offsets_Ok [OF this, of ?b]
  have c6: "Push_block_offsets ?b 0 (?c4\<lparr> value := ?vals \<rparr>) =
              Ok (?c4\<lparr> value := ?vals, offset := [0] @ row_offsets 0 rows \<rparr>)"
    using shifted_row_offsets [of rows] by (simp add: block_of_rows_def Clear_def)
  have bulk: "Push_block ?b ?c = Ok (?c4\<lparr> value := ?vals, offset := [0] @ row_offsets 0 rows \<rparr>)"
    unfolding Push_block_coherent [OF lab idx wfb] n ids lbl
    using c4 c5 c6 by (simp add: Clear_def)
  show ?thesis
    unfolding bulk Push_rows_Ok [OF wf valid] by (simp add: Clear_def)
qed

lemma Clear_empty: "Clear c = empty_container"
  by (cases c) (simp add: Clear_def empty_container_def)

text \<open>Claim C2, as amended. For rows that keep their contract and either all carry values
  or all carry none, the block that lays these rows out in compressed form is well-formed.
  When every feature id is below the largest value of \<^verbatim>\<open>IndexType\<close>, pushing the rows
  one by one into a cleared container succeeds with the state spelled out below, and
  pushing the block in one bulk call into a cleared container gives the same result
  (offset, label, index, value and max_index). When some id is not below that value,
  both fail with the overflow condition.\<close>

theorem merge_equivalence:
  fixes c0 :: "('a::len word, 'r::zero) RowBlockContainer"
    and rows :: "('b::len word, 'r) Row list"
  assumes uni: "\<forall>r\<in>set rows. wf_row r \<and> (row_value r \<noteq> None) = with_values"
  shows "wf_block (block_of_rows with_values rows) \<and>
         ((\<forall>r\<in>set rows. \<forall>x\<in>set (take (row_length r) (row_index r)).
              unat x < unat (- 1 :: 'a word)) \<longrightarrow>
            Push_rows rows (Clear c0) =
              Ok \<lparr> offset = 0 # row_offsets 0 rows,
                   label = map row_label rows,
                   index = map ucast (concat (map (\<lambda>r. take (row_length r) (row_index r)) rows)),
                   value = concat (map (\<lambda>r. case row_value r of None \<Rightarrow> []
                                           | Some vs \<Rightarrow> take (row_length r) vs) rows),
                   max_index = foldl max 0
                     (map ucast (concat (map (\<lambda>r. take (row_length r) (row_index r)) rows))) \<rparr> \<and>
            Push_block (block_of_rows with_values rows) (Clear c0) =
              Push_rows rows (Clear c0)) \<and>
         ((\<exists>r\<in>set rows. \<exists>x\<in>set (take (row_length r) (row_index r)).
              unat (- 1 :: 'a word) \<le> unat x) \<longrightarrow>
            (\<exists>c1 c2. Push_rows rows (Clear c0) = Fail IndexOverflow c1 \<and>
                     Push_block (block_of_rows with_values rows) (Clear c0) =
                       Fail IndexOverflow c2))"
proof (intro conjI impI)
  show wfb: "wf_block (block_of_rows with_values rows)"
    using uni by (rule wf_block_of_rows)
  from uni have wf: "\<forall>r\<in>set rows. wf_row r"
    by simp
  {
    assume valid: "\<forall>r\<in>set rows. \<forall>x\<in>set (take (row_length r) (row_index r)).
              unat x < unat (- 1 :: 'a word)"
    show "Push_rows rows (Clear c0) =
              Ok \<lparr> offset = 0 # row_offsets 0 rows,
                   label = map row_label rows,
                   index = map ucast (concat (map (\<lambda>r. take (row_length r) (row_index r)) rows)),
                   value = concat (map (\<lambda>r. case row_value r of None \<Rightarrow> []
                                           | Some vs \<Rightarrow> take (row_length r) vs) rows),
                   max_index = foldl max 0
                     (map ucast (concat (map (\<lambda>r. take (row_length r) (row_index r)) rows))) \<rparr>"
      unfolding Clear_empty Push_rows_Ok [OF wf valid] by (simp add: empty_container_def)
    show "Push_block (block_of_rows with_values rows) (Clear c0) = Push_rows rows (Clear c0)"
      by (rule Push_block_of_rows [OF uni valid])
  }
  {
    let ?b = "block_of_rows with_values rows"
    assume bad: "\<exists>r\<in>set rows. \<exists>x\<in>set (take (row_length r) (row_index r)).
              unat (- 1 :: 'a word) \<le> unat x"
    have n: "blk_offset ?b ! blk_size ?b = sum_list (map row_length rows)"
      using row_offsets_total [of 0 rows] by (simp add: block_of_rows_def)
    have "take (blk_offset ?b ! blk_size ?b) (blk_index ?b) =
            concat (map (\<lambda>r. take (row_length r) (row_index r)) rows)"
      unfolding n by (simp add: block_of_rows_def length_row_ids [OF wf])
    with bad have bad': "\<exists>x\<in>set (take (blk_offset ?b ! blk_size ?b) (blk_index ?b)).
                           unat (- 1 :: 'a word) \<le> unat x"
      by auto
    have "length (label (Clear c0)) + 1 = length (offset (Clear c0))"
      and "last (offset (Clear c0)) = length (index (Clear c0))"
      by (simp_all add: Clear_def)
    from Push_block_Fail [OF this wfb bad'] Push_rows_Fail [OF bad, of "Clear c0"]
    show "\<exists>c1 c2. Push_rows rows (Clear c0) = Fail IndexOverflow c1 \<and>
                     Push_block (block_of_rows with_values rows) (Clear c0) =
                       Fail IndexOverflow c2"
      by blast
  }
qed

theorem merge_equivalence_witness:
  "block_of_rows True
     [\<lparr> row_label = 1 :: int, row_length = 2, row_index = [1, 3 :: 64 word],
         row_value = Some [5, 20] \<rparr>,
      \<lparr> row_label = - 1, row_length = 1, row_index = [2], row_value = Some [10] \<rparr>] =
     parsed_block \<and>
   Push_rows
     [\<lparr> row_label = 1 :: int, row_length = 2, row_index = [1, 3 :: 64 word],
         row_value = Some [5, 20] \<rparr>,
      \<lparr> row_label = - 1, row_length = 1, row_index = [2], row_value = Some [10] \<rparr>]
     (Clear (empty_container :: (32 word, int) RowBlockContainer)) =
     Ok \<lparr> offset = [0, 2, 3], label = [1, - 1], index = [1, 3, 2], value = [5, 20, 10],
          max_index = 3 \<rparr> \<and>
   Push_block parsed_block (Clear (empty_container :: (32 word, int) RowBlockContainer)) =
     Ok \<lparr> offset = [0, 2, 3], label = [1, - 1], index = [1, 3, 2], value = [5, 20, 10],
          max_index = 3 \<rparr>"
proof -
  let ?rows = "[\<lparr> row_label = 1 :: int, row_length = 2, row_index = [1, 3 :: 64 word],
         row_value = Some [5, 20] \<rparr>,
      \<lparr> row_label = - 1, row_length = 1, row_index = [2], row_value = Some [10] \<rparr>]"
  let ?e = "empty_container :: (32 word, int) RowBlockContainer"
  let ?c = "\<lparr> offset = [0, 2, 3], label = [1 :: int, - 1], index = [1, 3, 2 :: 32 word],
              value = [5, 20, 10], max_index = 3 \<rparr>"
  have blk: "block_of_rows True ?rows = parsed_block"
    by (simp add: block_of_rows_def parsed_block_def)
  have uni: "\<forall>r\<in>set ?rows. wf_row r \<and> (row_value r \<noteq> None) = True"
    by (simp add: wf_row_def)
  have valid: "\<forall>r\<in>set ?rows. \<forall>x\<in>set (take (row_length r) (row_index r)).
              unat x < unat (- 1 :: 32 word)"
    by (simp add: unat_all_ones)
  note th = merge_equivalence [OF uni, of ?e, THEN conjunct2, THEN conjunct1, THEN mp, OF valid]
  from th [THEN conjunct1] have rowwise: "Push_rows ?rows (Clear ?e) = Ok ?c"
    by simp
  from th [THEN conjunct2] rowwise blk have bulk: "Push_block parsed_block (Clear ?e) = Ok ?c"
    by simp
  from blk rowwise bulk show ?thesis
    by (intro conjI)
qed

text \<open>Claim C2 as stated fails for rows with an id that overflows: both ways of pushing
  the rows with the ids 5 and \<open>2^32 - 1\<close> into an empty container of 32-bit indices fail,
  and they leave different containers behind. Row by row, the first row is complete
  (\<^verbatim>\<open>offset = [0, 1]\<close>, \<^verbatim>\<open>index = [5]\<close>); in bulk, no offset has been written and
  \<^verbatim>\<open>index\<close> has its new size (\<^verbatim>\<open>offset = [0]\<close>, \<^verbatim>\<open>index = [5, 0]\<close>).\<close>

theorem merge_failure_states_differ:
  "block_of_rows False
     [\<lparr> row_label = 1 :: int, row_length = 1, row_index = [5 :: 64 word], row_value = None \<rparr>,
      \<lparr> row_label = 1, row_length = 1, row_index = [0xFFFFFFFF], row_value = None \<rparr>] =
     \<lparr> blk_size = 2, blk_offset = [0, 1, 2], blk_label = [1, 1], blk_index = [5, 0xFFFFFFFF],
       blk_value = None \<rparr> \<and>
   Push_rows
     [\<lparr> row_label = 1 :: int, row_length = 1, row_index = [5 :: 64 word], row_value = None \<rparr>,
      \<lparr> row_label = 1, row_length = 1, row_index = [0xFFFFFFFF], row_value = None \<rparr>]
     (Clear (empty_container :: (32 word, int) RowBlockContainer)) =
     Fail IndexOverflow
       \<lparr> offset = [0, 1], label = [1, 1], index = [5], value = [], max_index = 5 \<rparr> \<and>
   Push_block
     \<lparr> blk_size = 2, blk_offset = [0, 1, 2], blk_label = [1 :: int, 1],
       blk_index = [5, 0xFFFFFFFF :: 64 word], blk_value = None \<rparr>
     (Clear (empty_container :: (32 word, int) RowBlockContainer)) =
     Fail IndexOverflow
       \<lparr> offset = [0], label = [1, 1], index = [5, 0], value = [], max_index = 5 \<rparr> \<and>
   \<lparr> offset = [0, 1], label = [1 :: int, 1], index = [5 :: 32 word], value = [], max_index = 5 \<rparr> \<noteq>
   \<lparr> offset = [0], label = [1, 1], index = [5, 0], value = [], max_index = 5 \<rparr>"
proof (intro conjI)
  show "block_of_rows False
     [\<lparr> row_label = 1 :: int, row_length = 1, row_index = [5 :: 64 word], row_value = None \<rparr>,
      \<lparr> row_label = 1, row_length = 1, row_index = [0xFFFFFFFF], row_value = None \<rparr>] =
     \<lparr> blk_size = 2, blk_offset = [0, 1, 2], blk_label = [1, 1], blk_index = [5, 0xFFFFFFFF],
       blk_value = None \<rparr>"
    by (simp add: block_of_rows_def)
  show "Push_rows
     [\<lparr> row_label = 1 :: int, row_length = 1, row_index = [5 :: 64 word], row_value = None \<rparr>,
      \<lparr> row_label = 1, row_length = 1, row_index = [0xFFFFFFFF], row_value = None \<rparr>]
     (Clear (empty_container :: (32 word, int) RowBlockContainer)) =
     Fail IndexOverflow
       \<lparr> offset = [0, 1], label = [1, 1], index = [5], value = [], max_index = 5 \<rparr>"
    by (simp add: empty_container_def Clear_def Push_row_def unat_all_ones)
  show "Push_block
     \<lparr> blk_size = 2, blk_offset = [0, 1, 2], blk_label = [1 :: int, 1],
       blk_index = [5, 0xFFFFFFFF :: 64 word], blk_value = None \<rparr>
     (Clear (empty_container :: (32 word, int) RowBlockContainer)) =
     Fail IndexOverflow
       \<lparr> offset = [0], label = [1, 1], index = [5, 0], value = [], max_index = 5 \<rparr>"
    by (simp add: empty_container_def Clear_def Push_block_def resize_def store_at_def
        unat_all_ones Let_def replicate_numeral_eq)
  show "\<lparr> offset = [0, 1], label = [1 :: int, 1], index = [5 :: 32 word], value = [], max_index = 5 \<rparr> \<noteq>
   \<lparr> offset = [0], label = [1, 1], index = [5, 0], value = [], max_index = 5 \<rparr>"
    by simp
qed

subsection \<open>The drain iterator\<close>

lemma Next_times_past_head: "\<not> m_at_head it \<Longrightarrow> Next_times n it = it"
  by (induction n) (simp_all add: Next_def)

lemma Next_leaves_head: "\<not> m_at_head (snd (Next it))"
  by (simp add: Next_def)

lemma Next_times_Suc_past_head: "Next_times (Suc n) it = snd (Next it)"
  by (simp add: Next_times_past_head [OF Next_leaves_head])

lemma Value_Next_times: "Value (Next_times n it) = Value it"
  by (induction n arbitrary: it) (simp_all add: Next_def Value_def)

lemma new_BasicRowIter_at_head: "new_BasicRowIter parser = Inr it \<Longrightarrow> m_at_head it"
  by (auto simp: new_BasicRowIter_def Init_def split: result.splits sum.splits)

lemma new_BasicRowIter_empty:
  "new_BasicRowIter [] =
     Inr \<lparr> m_at_head = True,
           m_row = \<lparr> blk_size = 0, blk_offset = [0], blk_label = [], blk_index = [], blk_value = None \<rparr>,
           m_data = \<lparr> offset = [0], label = [], index = [], value = [], max_index = 0 \<rparr> \<rparr>"
  by (simp add: new_BasicRowIter_def Init_def Clear_def GetBlock_def)

lemma drained_iter_built: "new_BasicRowIter [parsed_block] = Inr drained_iter"
  by (simp add: parsed_block_def drained_iter_def new_BasicRowIter_def Init_def Clear_def
      GetBlock_def Push_block_def resize_def store_at_def Push_block_values_def
      Push_block_offsets_def unat_all_ones Let_def upt_rec replicate_numeral_eq)

text \<open>Claim C10. An iterator that the constructor has built answers \<open>True\<close> to the first
  \<^verbatim>\<open>Next()\<close> and \<open>False\<close> to every later one; the same holds from any state after
  \<^verbatim>\<open>BeforeFirst()\<close>. \<^verbatim>\<open>Next()\<close> and \<^verbatim>\<open>BeforeFirst()\<close> leave \<^verbatim>\<open>Value()\<close> as it is, and on
  a parser that delivers nothing the constructor succeeds with a block of no rows.\<close>

theorem Next_once_per_pass:
  fixes it :: "('a::len word, 'r::zero) BasicRowIter" and it' :: "('a word, 'r) BasicRowIter"
  shows "(new_BasicRowIter parser = Inr it \<longrightarrow>
            fst (Next it) \<and> (\<forall>n. \<not> fst (Next (Next_times (Suc n) it)))) \<and>
         fst (Next (BeforeFirst it')) \<and>
         (\<forall>n. \<not> fst (Next (Next_times (Suc n) (BeforeFirst it')))) \<and>
         (\<forall>n. Value (Next_times n it') = Value it') \<and>
         Value (BeforeFirst it') = Value it' \<and>
         (\<exists>it0 :: ('a word, 'r) BasicRowIter.
            new_BasicRowIter [] = Inr it0 \<and> blk_size (Value it0) = 0)"
proof -
  have once: "fst (Next x) \<and> (\<forall>n. \<not> fst (Next (Next_times (Suc n) x)))"
    if "m_at_head x" for x :: "('a word, 'r) BasicRowIter"
  proof
    show "fst (Next x)" using that by (simp add: Next_def)
    show "\<forall>n. \<not> fst (Next (Next_times (Suc n) x))"
      unfolding Next_times_Suc_past_head by (simp add: Next_def)
  qed
  have "m_at_head (BeforeFirst it')" by (simp add: BeforeFirst_def)
  then have again: "fst (Next (BeforeFirst it')) \<and> (\<forall>n. \<not> fst (Next (Next_times (Suc n) (BeforeFirst it'))))"
    by (rule once)
  have first: "new_BasicRowIter parser = Inr it \<longrightarrow>
            fst (Next it) \<and> (\<forall>n. \<not> fst (Next (Next_times (Suc n) it)))"
    using once new_BasicRowIter_at_head by blast
  have empty: "\<exists>it0 :: ('a word, 'r) BasicRowIter.
            new_BasicRowIter [] = Inr it0 \<and> blk_size (Value it0) = 0"
    by (simp add: new_BasicRowIter_empty Value_def)
  show ?thesis
    using first again empty by (simp add: Value_Next_times) (simp add: Value_def BeforeFirst_def)
qed

theorem Next_once_per_pass_witness:
  "new_BasicRowIter [parsed_block] = Inr drained_iter \<and>
   fst (Next drained_iter) \<and>
   \<not> fst (Next (Next_times (Suc 0) drained_iter))"
proof -
  have both: "fst (Next drained_iter) \<and> (\<forall>n. \<not> fst (Next (Next_times (Suc n) drained_iter)))"
    using Next_once_per_pass [THEN conjunct1, THEN mp, OF drained_iter_built] .
  from both have first: "fst (Next drained_iter)"
    by (rule conjunct1)
  from both have "\<forall>n. \<not> fst (Next (Next_times (Suc n) drained_iter))"
    by (rule conjunct2)
  then have second: "\<not> fst (Next (Next_times (Suc 0) drained_iter))"
    by (rule spec)
  from drained_iter_built first second show ?thesis
    by (intro conjI)
qed

subsection \<open>Save and Load\<close>

text \<open>Claim C1. \<^verbatim>\<open>Save\<close> writes offset, label, index, value; \<^verbatim>\<open>Load\<close> reads offset,
  label, value, index. With 32-bit indices, the container holding the one row
  (label 1.0, feature 1 with value 0.5, as bit patterns) is saved and loaded without an
  error, and the loaded container has the bits of the value as its feature id and the
  feature id as the bits of its value: the exported blocks differ. A container with the
  same row and no value array loads into one whose \<^verbatim>\<open>GetBlock\<close> check fails. With
  64-bit indices \<^verbatim>\<open>Load\<close> fails on the stream that \<^verbatim>\<open>Save\<close> wrote.\<close>

theorem Load_reads_value_before_index:
  "Push_row \<lparr> row_label = 0x3F800000, row_length = 1, row_index = [1 :: 64 word],
              row_value = Some [0x3F000000] \<rparr> empty_container =
     Ok \<lparr> offset = [0, 1], label = [0x3F800000], index = [1 :: 32 word],
          value = [0x3F000000], max_index = 1 \<rparr> \<and>
   Load (Save \<lparr> offset = [0, 1], label = [0x3F800000], index = [1 :: 32 word],
                value = [0x3F000000], max_index = 1 \<rparr> []) empty_container =
     Ok (\<lparr> offset = [0, 1], label = [0x3F800000], index = [0x3F000000 :: 32 word],
           value = [1], max_index = 0 \<rparr>, []) \<and>
   GetBlock \<lparr> offset = [0, 1], label = [0x3F800000 :: 32 word], index = [1 :: 32 word],
              value = [0x3F000000], max_index = 1 \<rparr> =
     Inr \<lparr> blk_size = 1, blk_offset = [0, 1], blk_label = [0x3F800000], blk_index = [1],
           blk_value = Some [0x3F000000] \<rparr> \<and>
   GetBlock \<lparr> offset = [0, 1], label = [0x3F800000 :: 32 word],
              index = [0x3F000000 :: 32 word], value = [1], max_index = 0 \<rparr> =
     Inr \<lparr> blk_size = 1, blk_offset = [0, 1], blk_label = [0x3F800000],
           blk_index = [0x3F000000], blk_value = Some [1] \<rparr> \<and>
   Load (Save \<lparr> offset = [0, 1], label = [0x3F800000], index = [1 :: 32 word],
                value = [], max_index = 1 \<rparr> []) empty_container =
     Ok (\<lparr> offset = [0, 1], label = [0x3F800000], index = [] :: 32 word list,
           value = [1], max_index = 0 \<rparr>, []) \<and>
   GetBlock \<lparr> offset = [0, 1], label = [0x3F800000 :: 32 word], index = [] :: 32 word list,
              value = [1], max_index = 0 \<rparr> = Inl InvariantViolation \<and>
   Load (Save \<lparr> offset = [0, 1], label = [0x3F800000], index = [1 :: 64 word],
                value = [0x3F000000], max_index = 1 \<rparr> []) empty_container =
     Fail CorruptData
       (\<lparr> offset = [0, 1], label = [0x3F800000], index = [] :: 64 word list,
           value = [1], max_index = 0 \<rparr>,
        [0, 0, 0, 0, 1, 0, 0, 0, 0, 0, 0, 0, 0, 0, 0, 63])"
proof (intro conjI)
  show "Push_row \<lparr> row_label = 0x3F800000, row_length = 1, row_index = [1 :: 64 word],
              row_value = Some [0x3F000000] \<rparr> empty_container =
     Ok \<lparr> offset = [0, 1], label = [0x3F800000], index = [1 :: 32 word],
          value = [0x3F000000], max_index = 1 \<rparr>"
    by (simp add: Push_row_def empty_container_def unat_all_ones)
  show "Load (Save \<lparr> offset = [0, 1], label = [0x3F800000], index = [1 :: 32 word],
                value = [0x3F000000], max_index = 1 \<rparr> []) empty_container =
     Ok (\<lparr> offset = [0, 1], label = [0x3F800000], index = [0x3F000000 :: 32 word],
           value = [1], max_index = 0 \<rparr>, [])"
    by (simp add: Save_def Write_vec_def Load_def Read_vec_def empty_container_def upt_rec
        le_bytes_numeral)
  show "GetBlock \<lparr> offset = [0, 1], label = [0x3F800000 :: 32 word], index = [1 :: 32 word],
              value = [0x3F000000], max_index = 1 \<rparr> =
     Inr \<lparr> blk_size = 1, blk_offset = [0, 1], blk_label = [0x3F800000], blk_index = [1],
           blk_value = Some [0x3F000000] \<rparr>"
    by (simp add: GetBlock_def)
  show "GetBlock \<lparr> offset = [0, 1], label = [0x3F800000 :: 32 word],
              index = [0x3F000000 :: 32 word], value = [1], max_index = 0 \<rparr> =
     Inr \<lparr> blk_size = 1, blk_offset = [0, 1], blk_label = [0x3F800000],
           blk_index = [0x3F000000], blk_value = Some [1] \<rparr>"
    by (simp add: GetBlock_def)
  show "Load (Save \<lparr> offset = [0, 1], label = [0x3F800000], index = [1 :: 32 word],
                value = [], max_index = 1 \<rparr> []) empty_container =
     Ok (\<lparr> offset = [0, 1], label = [0x3F800000], index = [] :: 32 word list,
           value = [1], max_index = 0 \<rparr>, [])"
    by (simp add: Save_def Write_vec_def Load_def Read_vec_def empty_container_def upt_rec
        le_bytes_numeral)
  show "GetBlock \<lparr> offset = [0, 1], label = [0x3F800000 :: 32 word], index = [] :: 32 word list,
              value = [1], max_index = 0 \<rparr> = Inl InvariantViolation"
    by (simp add: GetBlock_def)
  show "Load (Save \<lparr> offset = [0, 1], label = [0x3F800000], index = [1 :: 64 word],
                value = [0x3F000000], max_index = 1 \<rparr> []) empty_container =
     Fail CorruptData
       (\<lparr> offset = [0, 1], label = [0x3F800000], index = [] :: 64 word list,
           value = [1], max_index = 0 \<rparr>,
        [0, 0, 0, 0, 1, 0, 0, 0, 0, 0, 0, 0, 0, 0, 0, 63])"
    by (simp add: Save_def Write_vec_def Load_def Read_vec_def empty_container_def upt_rec
        le_bytes_numeral)
qed

end
